theory Spec2Isabelle
  imports Main
begin

section \<open>Python values used by the recursion-safe wrapper\<close>

text \<open>
  The development embeds \<^verbatim>\<open>dataclass_wizard/v1/decorators.py\<close>: the decorator
  \<^verbatim>\<open>setup_recursive_safe_function\<close> and its inner \<^verbatim>\<open>_wrapper_logic\<close>.
  Python objects that are shared by reference (the recursion guard, the extras dictionaries,
  the locals dictionaries and the function builders) live in an explicit heap; an address is
  an index into that heap, so a freshly created object always gets an unused address.
\<close>

type_synonym addr = nat

datatype error =
    KeyError
  | TypeError
  | AttributeError
  | BuilderStateError
  | DuplicateProcedureError string
  | AmbiguousClassContextError
  | CompilerError string
  | DepthExceeded

text \<open>A Python class object, identified by its qualified name. Class objects are truthy.\<close>

datatype pytype = Class string

text \<open>
  The key under which the guard files a descriptor: \<^verbatim>\<open>tp.origin\<close> (a class) or
  \<^verbatim>\<open>tp.args\<close> (a tuple of classes). A class never equals a tuple.
\<close>

datatype cache_key = Origin pytype | TypeArgs "pytype list"

text \<open>
  Modelled from the spec: \<^verbatim>\<open>TypeInfo\<close> is imported from \<^verbatim>\<open>.models\<close>, which is
  not among the sources. The spec's Type Descriptor has an origin, type arguments, a display
  name, a field index and a value expression; the wrapper reads them as \<^verbatim>\<open>tp.origin\<close>,
  \<^verbatim>\<open>tp.args\<close>, \<^verbatim>\<open>tp.name\<close>, \<^verbatim>\<open>tp.field_i\<close> and \<^verbatim>\<open>tp.v()\<close>.
\<close>

record typeinfo =
  origin :: pytype
  args :: "pytype list"
  name :: string
  field_i :: int
  v :: string

text \<open>
  Modelled from the spec: \<^verbatim>\<open>Extras\<close> is imported from \<^verbatim>\<open>.models\<close>. The spec's
  Build Context holds the recursion guard, the current builder, the record's display name and
  the locals; the references are addresses of heap objects.
\<close>

record extras =
  recursion_guard :: addr
  cls_name :: string
  fn_gen :: addr
  locals :: addr

datatype sentinel = MISSING

text \<open>
  Modelled from the spec: \<^verbatim>\<open>FunctionBuilder\<close> is imported from
  \<^verbatim>\<open>..utils.function_builder\<close>. The spec's Procedure Builder holds named procedure
  definitions in insertion order (parameter names, statements, free-variable bindings, a
  sentinel) and the procedures whose scope is currently open, innermost first.
\<close>

record procedure =
  proc_name :: string
  proc_params :: "string list"
  proc_sentinel :: sentinel
  proc_locals :: addr
  proc_body :: "string list"

record function_builder =
  definitions :: "procedure list"
  opened :: "procedure list"

datatype pyval = TypeVal cache_key | OtherVal string

datatype obj =
    Guard "cache_key \<rightharpoonup> string"
  | Extras extras
  | Locals "string \<rightharpoonup> pyval"
  | Builder function_builder

text \<open>
  The world: the heap of shared objects, and a log of the cache keys for which a
  graph-driven per-field compiler (defined further down) was entered. The wrapper itself
  never reads or writes the log.
\<close>

record world =
  heap :: "obj list"
  entered :: "cache_key list"

text \<open>
  How the wrapper calls the decorated function: \<^verbatim>\<open>func(tp, updated_extras)\<close> or
  \<^verbatim>\<open>func(_cls, tp, updated_extras)\<close>.
\<close>

datatype call = Call2 typeinfo addr | Call3 pytype typeinfo addr

text \<open>
  A Python function: its \<^verbatim>\<open>__name__\<close>, the \<^verbatim>\<open>co_argcount\<close> of its code object,
  and what calling it does to the world (\<open>None\<close>: it returned; \<open>Some e\<close>: it raised
  \<open>e\<close>). What the interpreter does when the call's shape does not fit the declared
  parameters is part of \<open>run\<close>.
\<close>

record pyfunc =
  func_name :: string
  co_argcount :: nat
  run :: "call \<Rightarrow> world \<Rightarrow> error option \<times> world"

text \<open>A callable is a function, or some other callable object, which has no \<^verbatim>\<open>__code__\<close>.\<close>

datatype callable = Function pyfunc | OtherCallable string

section \<open>Strings\<close>

definition digit_char :: "nat \<Rightarrow> char" where
  "digit_char d = ''0123456789'' ! d"

fun digits_of :: "nat \<Rightarrow> string" where
  "digits_of n = (if n < 10 then [digit_char n] else digits_of (n div 10) @ [digit_char (n mod 10)])"

declare digits_of.simps [simp del]

text \<open>\<^verbatim>\<open>str(i)\<close> for a Python int, as an f-string renders it.\<close>

definition str_int :: "int \<Rightarrow> string" where
  "str_int i = (if i < 0 then CHR ''-'' # digits_of (nat (- i)) else digits_of (nat i))"

fun break_at :: "char \<Rightarrow> string \<Rightarrow> (string \<times> string) option" where
  "break_at c [] = None"
| "break_at c (x # xs) =
     (if x = c then Some ([], xs)
      else (case break_at c xs of None \<Rightarrow> None | Some (a, b) \<Rightarrow> Some (x # a, b)))"

text \<open>\<^verbatim>\<open>s.split(c, n)\<close> for a one-character separator: at most \<open>n\<close> splits, from the left.\<close>

fun str_split :: "char \<Rightarrow> nat \<Rightarrow> string \<Rightarrow> string list" where
  "str_split c 0 s = [s]"
| "str_split c (Suc n) s =
     (case break_at c s of None \<Rightarrow> [s] | Some (a, b) \<Rightarrow> a # str_split c n b)"

text \<open>
  A format string, already cut into literal text and replacement fields
  (\<^verbatim>\<open>'__from_dict_{cls_name}__'\<close> is \<open>[Lit ''__from_dict_'', Field ''cls_name'', Lit ''__'']\<close>).
\<close>

datatype fmt_piece = Lit string | Field string

type_synonym format_string = "fmt_piece list"

fun piece_text :: "fmt_piece \<Rightarrow> string" where
  "piece_text (Lit s) = s"
| "piece_text (Field f) = ''{'' @ f @ ''}''"

text \<open>Truthiness of an optional format string: \<^verbatim>\<open>None\<close> and \<^verbatim>\<open>''\<close> are falsy.\<close>

fun truthy :: "format_string option \<Rightarrow> bool" where
  "truthy None = False"
| "truthy (Some ps) = (concat (map piece_text ps) \<noteq> [])"

text \<open>
  \<^verbatim>\<open>fmt.format(cls_name=x)\<close>: the only keyword supplied is \<^verbatim>\<open>cls_name\<close>; any other
  replacement field raises \<^verbatim>\<open>KeyError\<close>.
\<close>

fun str_format :: "format_string \<Rightarrow> string \<Rightarrow> error + string" where
  "str_format [] x = Inr []"
| "str_format (Lit s # ps) x =
     (case str_format ps x of Inl e \<Rightarrow> Inl e | Inr r \<Rightarrow> Inr (s @ r))"
| "str_format (Field f # ps) x =
     (if f = ''cls_name''
      then (case str_format ps x of Inl e \<Rightarrow> Inl e | Inr r \<Rightarrow> Inr (x @ r))
      else Inl KeyError)"

section \<open>The heap\<close>

definition lookup :: "world \<Rightarrow> addr \<Rightarrow> obj option" where
  "lookup w a = (if a < length (heap w) then Some (heap w ! a) else None)"

definition store :: "addr \<Rightarrow> obj \<Rightarrow> world \<Rightarrow> world" where
  "store a x w = w\<lparr>heap := (heap w)[a := x]\<rparr>"

definition alloc :: "obj \<Rightarrow> world \<Rightarrow> addr \<times> world" where
  "alloc x w = (length (heap w), w\<lparr>heap := heap w @ [x]\<rparr>)"

definition get_extras :: "world \<Rightarrow> addr \<Rightarrow> extras option" where
  "get_extras w a = (case lookup w a of Some (Extras e) \<Rightarrow> Some e | _ \<Rightarrow> None)"

definition get_guard :: "world \<Rightarrow> addr \<Rightarrow> (cache_key \<rightharpoonup> string) option" where
  "get_guard w a = (case lookup w a of Some (Guard g) \<Rightarrow> Some g | _ \<Rightarrow> None)"

definition get_builder :: "world \<Rightarrow> addr \<Rightarrow> function_builder option" where
  "get_builder w a = (case lookup w a of Some (Builder b) \<Rightarrow> Some b | _ \<Rightarrow> None)"

definition get_locals :: "world \<Rightarrow> addr \<Rightarrow> (string \<rightharpoonup> pyval) option" where
  "get_locals w a = (case lookup w a of Some (Locals l) \<Rightarrow> Some l | _ \<Rightarrow> None)"

section \<open>The procedure builder\<close>

text \<open>
  Modelled from the spec: the operations of \<^verbatim>\<open>FunctionBuilder\<close> (section 4.1 of the
  spec). A new builder is empty. \<open>begin_procedure\<close> opens a named definition;
  \<open>end_procedure\<close> is the exit of that scope, which seals the innermost open definition
  under its name, also when the body raised; \<open>emit\<close> appends a statement to the innermost
  open definition and fails outside any scope; \<open>merge\<close> absorbs the other builder's
  definitions, keeps insertion order, and fails when a name collides.
\<close>

definition FunctionBuilder :: function_builder where
  "FunctionBuilder = \<lparr>definitions = [], opened = []\<rparr>"

definition begin_procedure ::
  "string \<Rightarrow> string list \<Rightarrow> sentinel \<Rightarrow> addr \<Rightarrow> function_builder \<Rightarrow> function_builder" where
  "begin_procedure nm ps s lc fb =
     fb\<lparr>opened := \<lparr>proc_name = nm, proc_params = ps, proc_sentinel = s, proc_locals = lc,
                    proc_body = []\<rparr> # opened fb\<rparr>"

definition seal :: "procedure \<Rightarrow> procedure list \<Rightarrow> procedure list" where
  "seal p ds =
     (if proc_name p \<in> set (map proc_name ds)
      then map (\<lambda>d. if proc_name d = proc_name p then p else d) ds
      else ds @ [p])"

definition end_procedure :: "function_builder \<Rightarrow> function_builder" where
  "end_procedure fb =
     (case opened fb of
        [] \<Rightarrow> fb
      | p # ps \<Rightarrow> fb\<lparr>definitions := seal p (definitions fb), opened := ps\<rparr>)"

definition emit :: "string \<Rightarrow> function_builder \<Rightarrow> error + function_builder" where
  "emit stmt fb =
     (case opened fb of
        [] \<Rightarrow> Inl BuilderStateError
      | p # ps \<Rightarrow> Inr (fb\<lparr>opened := p\<lparr>proc_body := proc_body p @ [stmt]\<rparr> # ps\<rparr>))"

definition merge :: "function_builder \<Rightarrow> function_builder \<Rightarrow> error + function_builder" where
  "merge self other =
     (case filter (\<lambda>n. n \<in> set (map proc_name (definitions self)))
             (map proc_name (definitions other)) of
        [] \<Rightarrow> Inr (self\<lparr>definitions := definitions self @ definitions other\<rparr>)
      | n # _ \<Rightarrow> Inl (DuplicateProcedureError n))"

text \<open>
  The builder operations applied to a builder object in the heap. An address that holds no
  builder leaves the world as it is (objects do not change their class in Python, so this
  only arises for a reference that was never a builder).
\<close>

definition update_builder :: "addr \<Rightarrow> (function_builder \<Rightarrow> function_builder) \<Rightarrow> world \<Rightarrow> world" where
  "update_builder a f w =
     (case get_builder w a of Some fb \<Rightarrow> store a (Builder (f fb)) w | None \<Rightarrow> w)"

text \<open>
  \<^verbatim>\<open>with fb.function(nm, ps, s, lc): body\<close>: the scope is opened, the body runs, and the
  scope's exit seals the definition whether or not the body raised; an exception of the body
  propagates.
\<close>

definition with_function ::
  "addr \<Rightarrow> string \<Rightarrow> string list \<Rightarrow> sentinel \<Rightarrow> addr \<Rightarrow>
   (world \<Rightarrow> error option \<times> world) \<Rightarrow> world \<Rightarrow> error option \<times> world" where
  "with_function b nm ps s lc body w =
     (case body (update_builder b (begin_procedure nm ps s lc) w) of
        (r, w') \<Rightarrow> (r, update_builder b end_procedure w'))"

text \<open>\<^verbatim>\<open>main_fn_gen |= new_fn_gen\<close>: the merge, written into the object \<open>main\<close>.\<close>

definition merge_into :: "addr \<Rightarrow> addr \<Rightarrow> world \<Rightarrow> error + world" where
  "merge_into main new w =
     (case (get_builder w main, get_builder w new) of
        (Some m, Some n) \<Rightarrow>
          (case merge m n of
             Inl e \<Rightarrow> Inl e
           | Inr m' \<Rightarrow> Inr (store main (Builder m') w))
      | _ \<Rightarrow> Inl TypeError)"

section \<open>The wrapper\<close>

text \<open>Line 52: \<^verbatim>\<open>cls = tp.args if is_generic else tp.origin\<close>.\<close>

definition cache_key_of :: "bool \<Rightarrow> typeinfo \<Rightarrow> cache_key" where
  "cache_key_of is_generic tp = (if is_generic then TypeArgs (args tp) else Origin (origin tp))"

text \<open>Line 57: \<^verbatim>\<open>tp_name = func.__name__.split('_', 2)[-1]\<close>.\<close>

definition tp_name_of :: "pyfunc \<Rightarrow> string" where
  "tp_name_of func = last (str_split CHR ''_'' 2 (func_name func))"

text \<open>Lines 59 to 66: the name of the generated function.\<close>

definition make_fn_name ::
  "pyfunc \<Rightarrow> format_string option \<Rightarrow> bool \<Rightarrow> string \<Rightarrow> typeinfo \<Rightarrow> error + string" where
  "make_fn_name func fn_name is_generic cls_name' tp =
     (let tp_name = tp_name_of func in
      if truthy fn_name
      then (case fn_name of Some fmt \<Rightarrow> str_format fmt (name tp) | None \<Rightarrow> Inr [])
      else Inr (if is_generic
                then ''_load_'' @ cls_name' @ ''_'' @ tp_name @ ''_'' @ str_int (field_i tp)
                else ''_load_'' @ cls_name' @ ''_'' @ tp_name @ ''_'' @ name tp))"

text \<open>Line 90: \<^verbatim>\<open>f'{_fn_name}({tp.v()})'\<close>.\<close>

definition call_expr :: "string \<Rightarrow> typeinfo \<Rightarrow> string" where
  "call_expr fn tp = fn @ ''('' @ v tp @ '')''"

text \<open>
  Lines 74 to 76: the shallow copy of the extras, with a new locals dictionary holding
  \<^verbatim>\<open>cls\<close> and a new builder. The three objects are created in the order of the source;
  the result is the addresses of the copy, of the locals and of the builder.
\<close>

definition nested_extras :: "extras \<Rightarrow> cache_key \<Rightarrow> world \<Rightarrow> (addr \<times> addr \<times> addr) \<times> world" where
  "nested_extras ex cls w =
     (let (updated_extras, w1) = alloc (Extras ex) w;
          (locals', w2) = alloc (Locals [''cls'' \<mapsto> TypeVal cls]) w1;
          w3 = store updated_extras (Extras (ex\<lparr>locals := locals'\<rparr>)) w2;
          (new_fn_gen, w4) = alloc (Builder FunctionBuilder) w3;
          w5 = store updated_extras (Extras (ex\<lparr>locals := locals', fn_gen := new_fn_gen\<rparr>)) w4
      in ((updated_extras, locals', new_fn_gen), w5))"

text \<open>
  Lines 81 and 85: \<^verbatim>\<open>func(_cls, tp, updated_extras) if _cls else func(tp, updated_extras)\<close>.
\<close>

definition body_call :: "pytype option \<Rightarrow> typeinfo \<Rightarrow> addr \<Rightarrow> call" where
  "body_call cls' tp updated_extras =
     (case cls' of Some c \<Rightarrow> Call3 c tp updated_extras | None \<Rightarrow> Call2 tp updated_extras)"

text \<open>
  Lines 39 to 90. The parameters \<open>func\<close>, \<open>fn_name\<close> and \<open>is_generic\<close> are the
  variables of the enclosing decorator call. \<open>_cls\<close> is \<open>None\<close> for Python's
  \<^verbatim>\<open>None\<close> (falsy) and \<open>Some c\<close> for a class object (truthy). The result is the
  returned string or the raised exception, with the world as the call left it.
  An \<open>extras\<close> that is no extras dictionary, or a guard that is no dictionary, cannot be
  read; the typed signature excludes both, and the model raises there.
\<close>

definition wrapper_logic ::
  "pyfunc \<Rightarrow> format_string option \<Rightarrow> bool \<Rightarrow> typeinfo \<Rightarrow> addr \<Rightarrow> pytype option \<Rightarrow> world \<Rightarrow>
   (error + string) \<times> world" where
  "wrapper_logic func fn_name is_generic tp extras' cls' w =
     (case get_extras w extras' of
        None \<Rightarrow> (Inl TypeError, w)
      | Some ex \<Rightarrow>
     (let cls = cache_key_of is_generic tp;
          guard = recursion_guard ex in
      case get_guard w guard of
        None \<Rightarrow> (Inl AttributeError, w)
      | Some g \<Rightarrow>
     (case g cls of
        Some fn \<Rightarrow> (Inr (call_expr fn tp), w)
      | None \<Rightarrow>
     (case make_fn_name func fn_name is_generic (cls_name ex) tp of
        Inl e \<Rightarrow> (Inl e, w)
      | Inr fn \<Rightarrow>
     (let w1 = store guard (Guard (g(cls \<mapsto> fn))) w;
          main_fn_gen = fn_gen ex;
          ((updated_extras, locals', new_fn_gen), w2) = nested_extras ex cls w1;
          body = run func (body_call cls' tp updated_extras);
          (r, w3) = (if truthy fn_name then body w2
                     else with_function new_fn_gen fn [''v1''] MISSING locals' body w2)
      in case r of
           Some e \<Rightarrow> (Inl e, w3)
         | None \<Rightarrow>
             (case merge_into main_fn_gen new_fn_gen w3 of
                Inl e \<Rightarrow> (Inl e, w3)
              | Inr w4 \<Rightarrow> (Inr (call_expr fn tp), w4)))))))"

text \<open>Lines 97 to 108.\<close>

definition wrapper_class_method ::
  "pyfunc \<Rightarrow> format_string option \<Rightarrow> bool \<Rightarrow> pytype option \<Rightarrow> typeinfo \<Rightarrow> addr \<Rightarrow> world \<Rightarrow>
   (error + string) \<times> world" where
  "wrapper_class_method func fn_name is_generic cls' tp extras' w =
     wrapper_logic func fn_name is_generic tp extras' cls' w"

text \<open>
  What the decorator returns: \<open>Wrapper_class_method\<close> is called as
  \<^verbatim>\<open>(_cls, tp, extras)\<close>; \<open>Wrapper_logic\<close> is \<^verbatim>\<open>_wrapper_logic\<close> itself, called as
  \<^verbatim>\<open>(tp, extras)\<close> or \<^verbatim>\<open>(tp, extras, _cls)\<close>, the third parameter defaulting to
  \<^verbatim>\<open>None\<close>.
\<close>

datatype wrapper =
    Wrapper_class_method
      "pytype option \<Rightarrow> typeinfo \<Rightarrow> addr \<Rightarrow> world \<Rightarrow> (error + string) \<times> world"
  | Wrapper_logic
      "typeinfo \<Rightarrow> addr \<Rightarrow> pytype option \<Rightarrow> world \<Rightarrow> (error + string) \<times> world"

text \<open>
  Lines 92 to 114, for a \<open>func\<close> that is not \<^verbatim>\<open>None\<close>. Reading
  \<^verbatim>\<open>func.__code__\<close> of a callable that has none raises \<^verbatim>\<open>AttributeError\<close>.
\<close>

definition decorate :: "format_string option \<Rightarrow> bool \<Rightarrow> callable \<Rightarrow> error + wrapper" where
  "decorate fn_name is_generic func =
     (case func of
        OtherCallable _ \<Rightarrow> Inl AttributeError
      | Function f \<Rightarrow>
          (let is_class_method = (co_argcount f = 3) in
           if is_class_method
           then Inr (Wrapper_class_method (wrapper_class_method f fn_name is_generic))
           else Inr (Wrapper_logic (wrapper_logic f fn_name is_generic))))"

text \<open>
  Lines 9 to 114: without a function the call returns a decorator that awaits one
  (lines 34 to 37).
\<close>

datatype setup_result = Decorator "callable \<Rightarrow> error + wrapper" | Wrapped wrapper

definition setup_recursive_safe_function ::
  "callable option \<Rightarrow> format_string option \<Rightarrow> bool \<Rightarrow> error + setup_result" where
  "setup_recursive_safe_function func fn_name is_generic =
     (case func of
        None \<Rightarrow> Inr (Decorator (decorate fn_name is_generic))
      | Some f \<Rightarrow>
          (case decorate fn_name is_generic f of
             Inl e \<Rightarrow> Inl e
           | Inr wr \<Rightarrow> Inr (Wrapped wr)))"

text \<open>Lines 117 to 133.\<close>

definition setup_recursive_safe_function_for_generic :: "callable \<Rightarrow> error + setup_result" where
  "setup_recursive_safe_function_for_generic func =
     setup_recursive_safe_function (Some func) None True"

section \<open>Example objects\<close>

text \<open>
  A small world: the guard at address 0 already holds a name for class \<open>A\<close>, the parent
  builder is at address 1, the locals at 2 and the extras of record \<open>Rec\<close> at 3.
\<close>

definition example_world :: world where
  "example_world =
     \<lparr>heap = [Guard [Origin (Class ''A'') \<mapsto> ''_load_Rec_dataclass_A''],
              Builder FunctionBuilder,
              Locals Map.empty,
              Extras \<lparr>recursion_guard = 0, cls_name = ''Rec'', fn_gen = 1, locals = 2\<rparr>],
      entered = []\<rparr>"

definition tp_A :: typeinfo where
  "tp_A = \<lparr>origin = Class ''A'', args = [], name = ''A'', field_i = 1, v = ''v1''\<rparr>"

definition tp_B :: typeinfo where
  "tp_B = \<lparr>origin = Class ''B'', args = [Class ''A''], name = ''B'', field_i = 2, v = ''v2''\<rparr>"

text \<open>A compiler that raises whenever it is called, and one that returns at once.\<close>

definition raising :: "string \<Rightarrow> pyfunc" where
  "raising nm = \<lparr>func_name = nm, co_argcount = 2,
                 run = (\<lambda>c w. (Some (CompilerError ''called''), w))\<rparr>"

definition returning :: "string \<Rightarrow> nat \<Rightarrow> pyfunc" where
  "returning nm n = \<lparr>func_name = nm, co_argcount = n, run = (\<lambda>c w. (None, w))\<rparr>"

section \<open>Heap lemmas\<close>

lemma lookup_store:
  "lookup (store a x w) b =
     (if b < length (heap w) then (if a = b then Some x else lookup w b) else None)"
  by (simp add: lookup_def store_def)

lemma heap_store: "heap (store a x w) = (heap w)[a := x]"
  by (simp add: store_def)

lemma entered_store: "entered (store a x w) = entered w"
  by (simp add: store_def)

lemma lookup_Some_length: "lookup w a = Some x \<Longrightarrow> a < length (heap w)"
  by (simp add: lookup_def split: if_splits)

lemma get_extras_lookup: "get_extras w a = Some e \<longleftrightarrow> lookup w a = Some (Extras e)"
  by (simp add: get_extras_def split: option.splits obj.splits)

lemma get_guard_lookup: "get_guard w a = Some g \<longleftrightarrow> lookup w a = Some (Guard g)"
  by (simp add: get_guard_def split: option.splits obj.splits)

lemma get_builder_lookup: "get_builder w a = Some b \<longleftrightarrow> lookup w a = Some (Builder b)"
  by (simp add: get_builder_def split: option.splits obj.splits)

lemma get_locals_lookup: "get_locals w a = Some l \<longleftrightarrow> lookup w a = Some (Locals l)"
  by (simp add: get_locals_def split: option.splits obj.splits)

lemma nested_extras_eq:
  "nested_extras ex cls w =
     ((length (heap w), Suc (length (heap w)), Suc (Suc (length (heap w)))),
      w\<lparr>heap := heap w @
         [Extras (ex\<lparr>locals := Suc (length (heap w)), fn_gen := Suc (Suc (length (heap w)))\<rparr>),
          Locals [''cls'' \<mapsto> TypeVal cls],
          Builder FunctionBuilder]\<rparr>)"
  by (simp add: nested_extras_def alloc_def store_def Let_def list_update_append)

section \<open>Cache hits\<close>

lemma wrapper_logic_hit:
  assumes "get_extras w extras' = Some ex"
    and "get_guard w (recursion_guard ex) = Some g"
    and "g (cache_key_of is_generic tp) = Some fn"
  shows "wrapper_logic func fn_name is_generic tp extras' cls' w = (Inr (call_expr fn tp), w)"
  using assms by (simp add: wrapper_logic_def)

text \<open>
  Claim C9. On a cache hit (the guard reached through the extras already has an entry for
  the descriptor's cache key) the call returns the reserved name applied to the value
  expression and leaves the whole world as it was: guard, builders and extras are unchanged,
  and the result does not depend on the decorated function, which is not called.
\<close>

theorem cache_hit_is_read_only:
  assumes "get_extras w extras' = Some ex"
    and "get_guard w (recursion_guard ex) = Some g"
    and "g (cache_key_of is_generic tp) = Some fn"
  shows "wrapper_logic func fn_name is_generic tp extras' cls' w
           = (Inr (fn @ ''('' @ v tp @ '')''), w)"
  using assms by (simp add: wrapper_logic_def call_expr_def)

theorem cache_hit_is_read_only_witness:
  "wrapper_logic (raising ''load_to_dataclass'') None False tp_A 3 None example_world
     = (Inr ''_load_Rec_dataclass_A(v1)'', example_world)"
proof -
  have e: "get_extras example_world 3
             = Some \<lparr>recursion_guard = 0, cls_name = ''Rec'', fn_gen = 1, locals = 2\<rparr>"
    by (simp add: get_extras_def lookup_def example_world_def)
  have g: "get_guard example_world
             (recursion_guard \<lparr>recursion_guard = 0, cls_name = ''Rec'', fn_gen = 1, locals = 2\<rparr>)
             = Some [Origin (Class ''A'') \<mapsto> ''_load_Rec_dataclass_A'']"
    by (simp add: get_guard_def lookup_def example_world_def)
  have k: "[Origin (Class ''A'') \<mapsto> ''_load_Rec_dataclass_A''] (cache_key_of False tp_A)
             = Some ''_load_Rec_dataclass_A''"
    by (simp add: cache_key_of_def tp_A_def)
  show ?thesis
    using cache_hit_is_read_only [OF e g k, of "raising ''load_to_dataclass''" None None]
    by (simp add: tp_A_def)
qed

lemma returning_simps:
  "func_name (returning nm n) = nm"
  "co_argcount (returning nm n) = n"
  "run (returning nm n) c w = (None, w)"
  by (simp_all add: returning_def)

lemma raising_simps:
  "func_name (raising nm) = nm"
  "co_argcount (raising nm) = 2"
  "run (raising nm) c w = (Some (CompilerError ''called''), w)"
  by (simp_all add: raising_def)

lemma tp_A_simps:
  "origin tp_A = Class ''A''" "args tp_A = []" "name tp_A = ''A''" "field_i tp_A = 1"
  "v tp_A = ''v1''"
  by (simp_all add: tp_A_def)

lemma tp_name_of_dataclass:
  "func_name f = ''load_to_dataclass'' \<Longrightarrow> tp_name_of f = ''dataclass''"
  by (simp add: tp_name_of_def numeral_2_eq_2)

section \<open>Cache misses\<close>

text \<open>
  Names for the stages of a miss. \<open>guard_entry\<close> reads one entry of a guard object.
  \<open>body_world\<close> is the world in which the decorated function starts: the name is in the
  guard, the three new objects exist, and the procedure scope is open unless a format string
  was given. \<open>close_scope\<close> is the exit of that scope.
\<close>

definition guard_entry :: "world \<Rightarrow> addr \<Rightarrow> cache_key \<Rightarrow> string option" where
  "guard_entry w a k = (case get_guard w a of Some g \<Rightarrow> g k | None \<Rightarrow> None)"

definition body_world ::
  "format_string option \<Rightarrow> string \<Rightarrow> cache_key \<Rightarrow> extras \<Rightarrow> (cache_key \<rightharpoonup> string) \<Rightarrow>
   world \<Rightarrow> world" where
  "body_world fn_name fn cls ex g w =
     (let n = length (heap w);
          w2 = snd (nested_extras ex cls (store (recursion_guard ex) (Guard (g(cls \<mapsto> fn))) w))
      in if truthy fn_name then w2
         else update_builder (Suc (Suc n)) (begin_procedure fn [''v1''] MISSING (Suc n)) w2)"

definition close_scope :: "format_string option \<Rightarrow> addr \<Rightarrow> world \<Rightarrow> world" where
  "close_scope fn_name b w = (if truthy fn_name then w else update_builder b end_procedure w)"

lemma wrapper_logic_miss:
  assumes "get_extras w extras' = Some ex"
    and "get_guard w (recursion_guard ex) = Some g"
    and "g (cache_key_of is_generic tp) = None"
    and "make_fn_name func fn_name is_generic (cls_name ex) tp = Inr fn"
  shows "wrapper_logic func fn_name is_generic tp extras' cls' w =
     (let n = length (heap w) in
      case run func (body_call cls' tp n)
             (body_world fn_name fn (cache_key_of is_generic tp) ex g w) of
        (Some e, w3) \<Rightarrow> (Inl e, close_scope fn_name (Suc (Suc n)) w3)
      | (None, w3) \<Rightarrow>
          (case merge_into (fn_gen ex) (Suc (Suc n)) (close_scope fn_name (Suc (Suc n)) w3) of
             Inl e \<Rightarrow> (Inl e, close_scope fn_name (Suc (Suc n)) w3)
           | Inr w4 \<Rightarrow> (Inr (call_expr fn tp), w4)))"
  using assms
  by (simp add: wrapper_logic_def nested_extras_eq body_world_def close_scope_def
      with_function_def Let_def heap_store split: prod.splits option.splits sum.splits)

lemma wrapper_logic_name_error:
  assumes "get_extras w extras' = Some ex"
    and "get_guard w (recursion_guard ex) = Some g"
    and "g (cache_key_of is_generic tp) = None"
    and "make_fn_name func fn_name is_generic (cls_name ex) tp = Inl e"
  shows "wrapper_logic func fn_name is_generic tp extras' cls' w = (Inl e, w)"
  using assms by (simp add: wrapper_logic_def)

lemma body_world_eq:
  assumes "recursion_guard ex < length (heap w)"
  shows "body_world fn_name fn cls ex g w =
     w\<lparr>heap := (heap w)[recursion_guard ex := Guard (g(cls \<mapsto> fn))] @
        [Extras (ex\<lparr>locals := Suc (length (heap w)), fn_gen := Suc (Suc (length (heap w)))\<rparr>),
         Locals [''cls'' \<mapsto> TypeVal cls],
         Builder (if truthy fn_name then FunctionBuilder
                  else begin_procedure fn [''v1''] MISSING (Suc (length (heap w))) FunctionBuilder)]\<rparr>"
  by (simp add: body_world_def nested_extras_eq Let_def heap_store update_builder_def
      get_builder_def lookup_def store_def nth_append list_update_append)

lemma get_guard_length: "get_guard w a = Some g \<Longrightarrow> a < length (heap w)"
  by (auto simp: get_guard_lookup dest: lookup_Some_length)

lemma get_extras_length: "get_extras w a = Some e \<Longrightarrow> a < length (heap w)"
  by (auto simp: get_extras_lookup dest: lookup_Some_length)

lemma get_builder_length: "get_builder w a = Some b \<Longrightarrow> a < length (heap w)"
  by (auto simp: get_builder_lookup dest: lookup_Some_length)

lemma update_builder_frame:
  "get_extras (update_builder a f w) b = get_extras w b"
  "get_guard (update_builder a f w) b = get_guard w b"
  "get_locals (update_builder a f w) b = get_locals w b"
  "entered (update_builder a f w) = entered w"
  "length (heap (update_builder a f w)) = length (heap w)"
  by (auto simp: update_builder_def get_extras_def get_guard_def get_locals_def get_builder_def
      lookup_def store_def nth_list_update split: option.splits obj.splits)

lemma get_builder_update_builder:
  "get_builder (update_builder a f w) b =
     (if a = b then map_option f (get_builder w b) else get_builder w b)"
  by (auto simp: update_builder_def get_builder_def lookup_def store_def nth_list_update
      split: option.splits obj.splits)

lemma close_scope_frame:
  "get_extras (close_scope fn_name a w) b = get_extras w b"
  "get_guard (close_scope fn_name a w) b = get_guard w b"
  "get_locals (close_scope fn_name a w) b = get_locals w b"
  "entered (close_scope fn_name a w) = entered w"
  "length (heap (close_scope fn_name a w)) = length (heap w)"
  by (simp_all add: close_scope_def update_builder_frame)

lemma get_builder_close_scope:
  "get_builder (close_scope fn_name a w) b =
     (if a = b \<and> \<not> truthy fn_name then map_option end_procedure (get_builder w b)
      else get_builder w b)"
  by (simp add: close_scope_def get_builder_update_builder)

lemma merge_into_Inr:
  assumes "merge_into main new w = Inr w'"
  shows "\<exists>m n m'. get_builder w main = Some m \<and> get_builder w new = Some n \<and>
           merge m n = Inr m' \<and> w' = store main (Builder m') w"
  using assms by (auto simp: merge_into_def split: option.splits sum.splits)

lemma merge_into_frame:
  assumes "merge_into main new w = Inr w'"
  shows "get_extras w' b = get_extras w b"
    and "get_guard w' b = get_guard w b"
    and "get_locals w' b = get_locals w b"
    and "entered w' = entered w"
    and "length (heap w') = length (heap w)"
  using merge_into_Inr [OF assms]
  by (auto simp: get_extras_def get_guard_def get_locals_def get_builder_def
      lookup_def store_def nth_list_update split: option.splits obj.splits if_splits)


lemma body_world_lookups:
  assumes "get_extras w extras' = Some ex"
    and "get_guard w (recursion_guard ex) = Some g"
  shows "get_guard (body_world fn_name fn cls ex g w) (recursion_guard ex) = Some (g(cls \<mapsto> fn))"
    and "get_extras (body_world fn_name fn cls ex g w) extras' = Some ex"
    and "get_extras (body_world fn_name fn cls ex g w) (length (heap w))
           = Some (ex\<lparr>locals := Suc (length (heap w)), fn_gen := Suc (Suc (length (heap w)))\<rparr>)"
    and "get_locals (body_world fn_name fn cls ex g w) (Suc (length (heap w)))
           = Some [''cls'' \<mapsto> TypeVal cls]"
    and "get_builder (body_world fn_name fn cls ex g w) (Suc (Suc (length (heap w))))
           = Some (if truthy fn_name then FunctionBuilder
                   else begin_procedure fn [''v1''] MISSING (Suc (length (heap w))) FunctionBuilder)"
    and "entered (body_world fn_name fn cls ex g w) = entered w"
    and "a < length (heap w) \<Longrightarrow> get_builder (body_world fn_name fn cls ex g w) a = get_builder w a"
  using assms get_guard_length [OF assms(2)] get_extras_length [OF assms(1)]
  by (auto simp: body_world_eq get_guard_def get_extras_def get_locals_def get_builder_def
      lookup_def nth_append nth_list_update split: option.splits obj.splits)

section \<open>More example objects\<close>

text \<open>
  A world whose guard is still empty, a second descriptor of class \<open>A\<close> (another
  field of the same type), and the world after \<open>A\<close> has been compiled once in it.
\<close>

definition fresh_world :: world where
  "fresh_world =
     \<lparr>heap = [Guard Map.empty,
              Builder FunctionBuilder,
              Locals Map.empty,
              Extras \<lparr>recursion_guard = 0, cls_name = ''Rec'', fn_gen = 1, locals = 2\<rparr>],
      entered = []\<rparr>"


definition world_after_A :: world where
  "world_after_A =
     \<lparr>heap = [Guard [Origin (Class ''A'') \<mapsto> ''_load_Rec_dataclass_A''],
              Builder \<lparr>definitions =
                         [\<lparr>proc_name = ''_load_Rec_dataclass_A'', proc_params = [''v1''],
                           proc_sentinel = MISSING, proc_locals = 5, proc_body = []\<rparr>],
                       opened = []\<rparr>,
              Locals Map.empty,
              Extras \<lparr>recursion_guard = 0, cls_name = ''Rec'', fn_gen = 1, locals = 2\<rparr>,
              Extras \<lparr>recursion_guard = 0, cls_name = ''Rec'', fn_gen = 6, locals = 5\<rparr>,
              Locals [''cls'' \<mapsto> TypeVal (Origin (Class ''A''))],
              Builder \<lparr>definitions =
                         [\<lparr>proc_name = ''_load_Rec_dataclass_A'', proc_params = [''v1''],
                           proc_sentinel = MISSING, proc_locals = 5, proc_body = []\<rparr>],
                       opened = []\<rparr>],
      entered = []\<rparr>"


lemma fresh_world_simps:
  "get_extras fresh_world 3
     = Some \<lparr>recursion_guard = 0, cls_name = ''Rec'', fn_gen = 1, locals = 2\<rparr>"
  "get_guard fresh_world 0 = Some Map.empty"
  "get_builder fresh_world 1 = Some FunctionBuilder"
  "length (heap fresh_world) = 4"
  by (simp_all add: fresh_world_def get_extras_def get_guard_def get_builder_def lookup_def)

lemma name_A:
  "make_fn_name (returning ''load_to_dataclass'' n) None False ''Rec'' tp_A
     = Inr ''_load_Rec_dataclass_A''"
  by (simp add: make_fn_name_def tp_name_of_dataclass returning_simps tp_A_simps)

lemma first_call:
  "wrapper_logic (returning ''load_to_dataclass'' 2) None False tp_A 3 None fresh_world
     = (Inr ''_load_Rec_dataclass_A(v1)'', world_after_A)"
proof -
  let ?ex = "\<lparr>recursion_guard = 0, cls_name = ''Rec'', fn_gen = 1, locals = 2\<rparr>"
  have k: "Map.empty (cache_key_of False tp_A) = None" by simp
  have e: "get_extras fresh_world 3 = Some ?ex"
    by (rule fresh_world_simps)
  have g: "get_guard fresh_world (recursion_guard ?ex) = Some Map.empty"
    by (simp add: fresh_world_simps)
  have n: "make_fn_name (returning ''load_to_dataclass'' 2) None False (cls_name ?ex) tp_A
             = Inr ''_load_Rec_dataclass_A''"
    by (simp add: name_A)
  show ?thesis
    unfolding wrapper_logic_miss [OF e g k n]
    by (simp add: returning_simps body_world_eq close_scope_def fresh_world_def
        update_builder_def get_builder_def lookup_def store_def merge_into_def merge_def
        FunctionBuilder_def begin_procedure_def end_procedure_def seal_def call_expr_def
        tp_A_simps cache_key_of_def world_after_A_def)
qed

section \<open>One procedure per cache key\<close>





section \<open>The guard is written before the body runs\<close>

lemma make_fn_name_cong:
  "func_name f' = func_name f \<Longrightarrow>
   make_fn_name f' fn_name is_generic cn tp = make_fn_name f fn_name is_generic cn tp"
  by (simp add: make_fn_name_def tp_name_of_def)

text \<open>
  A compiler that asks for its own type again: its body requests the descriptor it was given
  through a wrapper around \<open>raising\<close>, a function that raises as soon as it is called.
\<close>

definition self_referential :: pyfunc where
  "self_referential =
     \<lparr>func_name = ''load_to_dataclass'', co_argcount = 2,
      run = (\<lambda>c w. case c of
               Call2 tp ue \<Rightarrow>
                 (case wrapper_logic (raising ''load_to_dataclass'') None False tp ue None w of
                    (Inl e, w') \<Rightarrow> (Some e, w')
                  | (Inr s, w') \<Rightarrow> (None, w'))
             | Call3 cl tp ue \<Rightarrow> (Some TypeError, w))\<rparr>"

text \<open>
  Claim C2. On a miss: (1) the decorated function is only ever run in a world whose guard
  already holds the reserved name under the cache key, since replacing it by a function that
  differs only on worlds without that entry changes nothing; (2) in any world where the
  shared guard holds that entry, a call of a wrapper for an equal key through extras that
  share the guard returns the reserved name and changes nothing, whichever function it
  decorates, so a re-entrant request does not run a body again; (3) the world in which the
  body starts has the new entry and every old entry of the guard, and once the body has
  returned or raised the wrapper leaves every guard object as the body left it.
\<close>

theorem guard_written_before_body:
  assumes ex: "get_extras w extras' = Some ex"
    and g: "get_guard w (recursion_guard ex) = Some g"
    and miss: "g (cache_key_of is_generic tp) = None"
    and fn: "make_fn_name func fn_name is_generic (cls_name ex) tp = Inr fn"
  shows "(\<forall>func'. func_name func' = func_name func \<and>
            (\<forall>c wi. guard_entry wi (recursion_guard ex) (cache_key_of is_generic tp) = Some fn
                      \<longrightarrow> run func' c wi = run func c wi) \<longrightarrow>
            wrapper_logic func' fn_name is_generic tp extras' cls' w
              = wrapper_logic func fn_name is_generic tp extras' cls' w) \<and>
         (\<forall>wi extras2 ex2 tp2 func2 fn_name2 cls2.
            get_extras wi extras2 = Some ex2 \<and> recursion_guard ex2 = recursion_guard ex \<and>
            guard_entry wi (recursion_guard ex) (cache_key_of is_generic tp) = Some fn \<and>
            cache_key_of is_generic tp2 = cache_key_of is_generic tp \<longrightarrow>
            wrapper_logic func2 fn_name2 is_generic tp2 extras2 cls2 wi
              = (Inr (fn @ ''('' @ v tp2 @ '')''), wi)) \<and>
         (\<exists>w_in.
            guard_entry w_in (recursion_guard ex) (cache_key_of is_generic tp) = Some fn \<and>
            (\<forall>k n. g k = Some n \<longrightarrow> guard_entry w_in (recursion_guard ex) k = Some n) \<and>
            (\<forall>r w_out a.
               run func (body_call cls' tp (length (heap w))) w_in = (r, w_out) \<longrightarrow>
               get_guard (snd (wrapper_logic func fn_name is_generic tp extras' cls' w)) a
                 = get_guard w_out a))"
proof -
  let ?k = "cache_key_of is_generic tp"
  let ?rg = "recursion_guard ex"
  let ?n = "length (heap w)"
  let ?w2 = "body_world fn_name fn ?k ex g w"
  have entry: "guard_entry ?w2 ?rg ?k = Some fn"
    by (simp add: guard_entry_def body_world_lookups [OF ex g])
  have A: "\<forall>func'. func_name func' = func_name func \<and>
            (\<forall>c wi. guard_entry wi ?rg ?k = Some fn \<longrightarrow> run func' c wi = run func c wi) \<longrightarrow>
            wrapper_logic func' fn_name is_generic tp extras' cls' w
              = wrapper_logic func fn_name is_generic tp extras' cls' w"
  proof (intro allI impI)
    fix func' :: pyfunc
    assume a: "func_name func' = func_name func \<and>
      (\<forall>c wi. guard_entry wi ?rg ?k = Some fn \<longrightarrow> run func' c wi = run func c wi)"
    from a have fn': "make_fn_name func' fn_name is_generic (cls_name ex) tp = Inr fn"
      using fn make_fn_name_cong [of func' func fn_name is_generic "cls_name ex" tp] by simp
    from a entry have "run func' (body_call cls' tp ?n) ?w2 = run func (body_call cls' tp ?n) ?w2"
      by blast
    then show "wrapper_logic func' fn_name is_generic tp extras' cls' w
                 = wrapper_logic func fn_name is_generic tp extras' cls' w"
      by (simp add: wrapper_logic_miss [OF ex g miss fn] wrapper_logic_miss [OF ex g miss fn'] Let_def)
  qed
  have B: "\<forall>wi extras2 ex2 tp2 func2 fn_name2 cls2.
            get_extras wi extras2 = Some ex2 \<and> recursion_guard ex2 = ?rg \<and>
            guard_entry wi ?rg ?k = Some fn \<and> cache_key_of is_generic tp2 = ?k \<longrightarrow>
            wrapper_logic func2 fn_name2 is_generic tp2 extras2 cls2 wi
              = (Inr (fn @ ''('' @ v tp2 @ '')''), wi)"
  proof (intro allI impI)
    fix wi extras2 ex2 tp2 func2 fn_name2 cls2
    assume a: "get_extras wi extras2 = Some ex2 \<and> recursion_guard ex2 = ?rg \<and>
      guard_entry wi ?rg ?k = Some fn \<and> cache_key_of is_generic tp2 = ?k"
    from a obtain g2 where g2: "get_guard wi (recursion_guard ex2) = Some g2"
        "g2 (cache_key_of is_generic tp2) = Some fn"
      by (auto simp: guard_entry_def split: option.splits)
    from a have e2: "get_extras wi extras2 = Some ex2" by simp
    show "wrapper_logic func2 fn_name2 is_generic tp2 extras2 cls2 wi
            = (Inr (fn @ ''('' @ v tp2 @ '')''), wi)"
      using wrapper_logic_hit [OF e2 g2] by (simp add: call_expr_def)
  qed
  have C: "\<exists>w_in.
          guard_entry w_in ?rg ?k = Some fn \<and>
          (\<forall>k n. g k = Some n \<longrightarrow> guard_entry w_in ?rg k = Some n) \<and>
          (\<forall>r w_out a.
             run func (body_call cls' tp ?n) w_in = (r, w_out) \<longrightarrow>
             get_guard (snd (wrapper_logic func fn_name is_generic tp extras' cls' w)) a
               = get_guard w_out a)"
  proof (intro exI [of _ ?w2] conjI allI impI)
    show "guard_entry ?w2 ?rg ?k = Some fn" by (rule entry)
  next
    fix k n assume "g k = Some n"
    with miss show "guard_entry ?w2 ?rg k = Some n"
      by (auto simp: guard_entry_def body_world_lookups [OF ex g])
  next
    fix r w_out a
    assume run: "run func (body_call cls' tp ?n) ?w2 = (r, w_out)"
    show "get_guard (snd (wrapper_logic func fn_name is_generic tp extras' cls' w)) a
            = get_guard w_out a"
    proof (cases r)
      case (Some e)
      with run show ?thesis
        by (simp add: wrapper_logic_miss [OF ex g miss fn] close_scope_frame)
    next
      case None
      show ?thesis
      proof (cases "merge_into (fn_gen ex) (Suc (Suc ?n)) (close_scope fn_name (Suc (Suc ?n)) w_out)")
        case (Inl e)
        with run None show ?thesis
          by (simp add: wrapper_logic_miss [OF ex g miss fn] close_scope_frame)
      next
        case (Inr w4)
        with run None show ?thesis
          by (simp add: wrapper_logic_miss [OF ex g miss fn] close_scope_frame
              merge_into_frame [OF Inr])
      qed
    qed
  qed
  show ?thesis by (rule conjI [OF A conjI [OF B C]])
qed

theorem guard_written_before_body_witness:
  "wrapper_logic self_referential None False tp_A 3 None fresh_world
     = (Inr ''_load_Rec_dataclass_A(v1)'', world_after_A)"
proof -
  let ?ex = "\<lparr>recursion_guard = 0, cls_name = ''Rec'', fn_gen = 1, locals = 2\<rparr>"
  let ?fn = "''_load_Rec_dataclass_A''"
  let ?w_in = "body_world None ?fn (cache_key_of False tp_A) ?ex Map.empty fresh_world"
  have e: "get_extras fresh_world 3 = Some ?ex"
    by (rule fresh_world_simps)
  have g: "get_guard fresh_world (recursion_guard ?ex) = Some Map.empty"
    by (simp add: fresh_world_simps)
  have k: "Map.empty (cache_key_of False tp_A) = None" by simp
  have n: "make_fn_name self_referential None False (cls_name ?ex) tp_A = Inr ?fn"
    by (simp add: make_fn_name_def tp_name_of_dataclass self_referential_def tp_A_simps)
  note reuse = guard_written_before_body [OF e g k n, of None, THEN conjunct2, THEN conjunct1,
      rule_format, of ?w_in 4 "?ex\<lparr>locals := 5, fn_gen := 6\<rparr>" tp_A]
  have e4: "get_extras ?w_in 4 = Some (?ex\<lparr>locals := 5, fn_gen := 6\<rparr>)"
    using body_world_lookups(3) [OF e g, of None ?fn "cache_key_of False tp_A"]
    by (simp add: fresh_world_simps)
  have entry: "guard_entry ?w_in (recursion_guard ?ex) (cache_key_of False tp_A) = Some ?fn"
    using body_world_lookups(1) [OF e g, of None ?fn "cache_key_of False tp_A"]
    by (simp add: guard_entry_def)
  have nested: "wrapper_logic (raising ''load_to_dataclass'') None False tp_A 4 None ?w_in
                  = (Inr (?fn @ ''('' @ v tp_A @ '')''), ?w_in)"
    by (rule reuse) (use e4 entry in simp)
  have run: "run self_referential (body_call None tp_A 4) ?w_in = (None, ?w_in)"
    using nested by (simp add: self_referential_def body_call_def)
  show ?thesis
    unfolding wrapper_logic_miss [OF e g k n] fresh_world_simps Let_def run
    by (simp add: body_world_eq close_scope_def fresh_world_def
        update_builder_def get_builder_def lookup_def store_def merge_into_def merge_def
        FunctionBuilder_def begin_procedure_def end_procedure_def seal_def call_expr_def
        tp_A_simps cache_key_of_def world_after_A_def)
qed

section \<open>The nested scope\<close>

lemma wrapper_logic_miss_Inr:
  assumes ex: "get_extras w extras' = Some ex"
    and g: "get_guard w (recursion_guard ex) = Some g"
    and miss: "g (cache_key_of is_generic tp) = None"
    and fn: "make_fn_name func fn_name is_generic (cls_name ex) tp = Inr fn"
    and ret: "wrapper_logic func fn_name is_generic tp extras' cls' w = (Inr s, w')"
  shows "\<exists>w_out.
           run func (body_call cls' tp (length (heap w)))
             (body_world fn_name fn (cache_key_of is_generic tp) ex g w) = (None, w_out) \<and>
           merge_into (fn_gen ex) (Suc (Suc (length (heap w))))
             (close_scope fn_name (Suc (Suc (length (heap w)))) w_out) = Inr w' \<and>
           s = call_expr fn tp"
proof -
  obtain r w_out where run:
    "run func (body_call cls' tp (length (heap w)))
       (body_world fn_name fn (cache_key_of is_generic tp) ex g w) = (r, w_out)"
    by (cases "run func (body_call cls' tp (length (heap w)))
                 (body_world fn_name fn (cache_key_of is_generic tp) ex g w)")
  from ret run show ?thesis
    by (auto simp: wrapper_logic_miss [OF ex g miss fn] Let_def
        split: option.splits sum.splits)
qed

text \<open>
  Claim C6. On a miss that returns, the decorated function was run on the address of a new
  extras object that is a copy of the caller's extras except that \<^verbatim>\<open>locals\<close> refers to
  a new dictionary holding the cache key under \<^verbatim>\<open>'cls'\<close> and \<^verbatim>\<open>fn_gen\<close> to a new
  builder (with the procedure scope open unless a format string was given), all three at
  addresses that held no object before; the copy's
  \<^verbatim>\<open>recursion_guard\<close> is the caller's guard address, so both see one guard object, which
  already holds the reserved name. The caller's extras object is unchanged when the body
  starts. After the body has returned, the scope is closed, the new builder is merged into
  the parent builder, and that is the only object the wrapper changes then: every extras
  object and every guard object is as the body left it.
\<close>

theorem nested_compilation_scope:
  assumes ex: "get_extras w extras' = Some ex"
    and g: "get_guard w (recursion_guard ex) = Some g"
    and miss: "g (cache_key_of is_generic tp) = None"
    and fn: "make_fn_name func fn_name is_generic (cls_name ex) tp = Inr fn"
    and ret: "wrapper_logic func fn_name is_generic tp extras' cls' w = (Inr s, w')"
  shows "\<exists>w_in w_out w_s m nb m'.
           lookup w (length (heap w)) = None \<and>
           lookup w (Suc (length (heap w))) = None \<and>
           lookup w (Suc (Suc (length (heap w)))) = None \<and>
           get_extras w_in (length (heap w))
             = Some (ex\<lparr>locals := Suc (length (heap w)),
                         fn_gen := Suc (Suc (length (heap w)))\<rparr>) \<and>
           get_locals w_in (Suc (length (heap w)))
             = Some [''cls'' \<mapsto> TypeVal (cache_key_of is_generic tp)] \<and>
           get_builder w_in (Suc (Suc (length (heap w))))
             = Some (if truthy fn_name then FunctionBuilder
                     else begin_procedure fn [''v1''] MISSING (Suc (length (heap w)))
                            FunctionBuilder) \<and>
           get_guard w_in (recursion_guard ex) = Some (g(cache_key_of is_generic tp \<mapsto> fn)) \<and>
           get_extras w_in extras' = Some ex \<and>
           run func (body_call cls' tp (length (heap w))) w_in = (None, w_out) \<and>
           w_s = (if truthy fn_name then w_out
                  else update_builder (Suc (Suc (length (heap w)))) end_procedure w_out) \<and>
           get_builder w_s (fn_gen ex) = Some m \<and>
           get_builder w_s (Suc (Suc (length (heap w)))) = Some nb \<and>
           merge m nb = Inr m' \<and>
           w' = store (fn_gen ex) (Builder m') w_s \<and>
           (\<forall>a. get_extras w' a = get_extras w_out a) \<and>
           (\<forall>a. get_guard w' a = get_guard w_out a)"
proof -
  let ?n = "length (heap w)"
  let ?w_in = "body_world fn_name fn (cache_key_of is_generic tp) ex g w"
  from wrapper_logic_miss_Inr [OF ex g miss fn ret] obtain w_out where
    run: "run func (body_call cls' tp ?n) ?w_in = (None, w_out)" and
    mrg: "merge_into (fn_gen ex) (Suc (Suc ?n)) (close_scope fn_name (Suc (Suc ?n)) w_out) = Inr w'"
    by blast
  let ?w_s = "close_scope fn_name (Suc (Suc ?n)) w_out"
  from merge_into_Inr [OF mrg] obtain m nb m' where
    m: "get_builder ?w_s (fn_gen ex) = Some m" and
    nb: "get_builder ?w_s (Suc (Suc ?n)) = Some nb" and
    mm: "merge m nb = Inr m'" and
    w': "w' = store (fn_gen ex) (Builder m') ?w_s"
    by blast
  have fresh: "lookup w ?n = None" by (simp add: lookup_def)
  have fresh1: "lookup w (Suc ?n) = None" by (simp add: lookup_def)
  have fresh2: "lookup w (Suc (Suc ?n)) = None" by (simp add: lookup_def)
  have ws: "?w_s = (if truthy fn_name then w_out
                    else update_builder (Suc (Suc ?n)) end_procedure w_out)"
    by (simp add: close_scope_def)
  have fe: "\<forall>a. get_extras w' a = get_extras w_out a"
    by (simp add: merge_into_frame [OF mrg] close_scope_frame)
  have fg: "\<forall>a. get_guard w' a = get_guard w_out a"
    by (simp add: merge_into_frame [OF mrg] close_scope_frame)
  show ?thesis
    apply (rule exI [of _ ?w_in])
    apply (rule exI [of _ w_out])
    apply (rule exI [of _ ?w_s])
    apply (rule exI [of _ m])
    apply (rule exI [of _ nb])
    apply (rule exI [of _ m'])
    apply (intro conjI)
                   apply (rule fresh)
                  apply (rule fresh1)
                 apply (rule fresh2)
                apply (rule body_world_lookups(3) [OF ex g])
               apply (rule body_world_lookups(4) [OF ex g])
              apply (rule body_world_lookups(5) [OF ex g])
             apply (rule body_world_lookups(1) [OF ex g])
            apply (rule body_world_lookups(2) [OF ex g])
           apply (rule run)
          apply (rule ws)
         apply (rule m)
        apply (rule nb)
       apply (rule mm)
      apply (rule w')
     apply (rule fe)
    apply (rule fg)
    done
qed

theorem nested_compilation_scope_witness:
  "\<exists>w_in w_out w_s m nb m'.
     lookup fresh_world (length (heap fresh_world)) = None \<and>
     lookup fresh_world (Suc (length (heap fresh_world))) = None \<and>
     lookup fresh_world (Suc (Suc (length (heap fresh_world)))) = None \<and>
     get_extras w_in (length (heap fresh_world))
       = Some (\<lparr>recursion_guard = 0, cls_name = ''Rec'', fn_gen = 1, locals = 2\<rparr>
                 \<lparr>locals := Suc (length (heap fresh_world)),
                  fn_gen := Suc (Suc (length (heap fresh_world)))\<rparr>) \<and>
     get_locals w_in (Suc (length (heap fresh_world)))
       = Some [''cls'' \<mapsto> TypeVal (cache_key_of False tp_A)] \<and>
     get_builder w_in (Suc (Suc (length (heap fresh_world))))
       = Some (if truthy None then FunctionBuilder
               else begin_procedure ''_load_Rec_dataclass_A'' [''v1''] MISSING
                      (Suc (length (heap fresh_world))) FunctionBuilder) \<and>
     get_guard w_in
       (recursion_guard \<lparr>recursion_guard = 0, cls_name = ''Rec'', fn_gen = 1, locals = 2\<rparr>)
       = Some (Map.empty(cache_key_of False tp_A \<mapsto> ''_load_Rec_dataclass_A'')) \<and>
     get_extras w_in 3
       = Some \<lparr>recursion_guard = 0, cls_name = ''Rec'', fn_gen = 1, locals = 2\<rparr> \<and>
     run (returning ''load_to_dataclass'' 2) (body_call None tp_A (length (heap fresh_world))) w_in
       = (None, w_out) \<and>
     w_s = (if truthy None then w_out
            else update_builder (Suc (Suc (length (heap fresh_world)))) end_procedure w_out) \<and>
     get_builder w_s (fn_gen \<lparr>recursion_guard = 0, cls_name = ''Rec'', fn_gen = 1, locals = 2\<rparr>)
       = Some m \<and>
     get_builder w_s (Suc (Suc (length (heap fresh_world)))) = Some nb \<and>
     merge m nb = Inr m' \<and>
     world_after_A
       = store (fn_gen \<lparr>recursion_guard = 0, cls_name = ''Rec'', fn_gen = 1, locals = 2\<rparr>)
           (Builder m') w_s \<and>
     (\<forall>a. get_extras world_after_A a = get_extras w_out a) \<and>
     (\<forall>a. get_guard world_after_A a = get_guard w_out a)"
proof -
  let ?ex = "\<lparr>recursion_guard = 0, cls_name = ''Rec'', fn_gen = 1, locals = 2\<rparr>"
  have e: "get_extras fresh_world 3 = Some ?ex"
    by (rule fresh_world_simps)
  have g: "get_guard fresh_world (recursion_guard ?ex) = Some Map.empty"
    by (simp add: fresh_world_simps)
  have k: "Map.empty (cache_key_of False tp_A) = None" by simp
  have n: "make_fn_name (returning ''load_to_dataclass'' 2) None False (cls_name ?ex) tp_A
             = Inr ''_load_Rec_dataclass_A''"
    by (simp add: name_A)
  show ?thesis
    by (rule nested_compilation_scope [OF e g k n first_call])
qed

section \<open>A body that raises\<close>

lemma lookup_update_builder_other:
  "a \<noteq> b \<Longrightarrow> lookup (update_builder a f w) b = lookup w b"
  by (auto simp: update_builder_def lookup_def store_def nth_list_update split: option.splits)

lemma lookup_close_scope_other:
  "a \<noteq> b \<Longrightarrow> lookup (close_scope fn_name a w) b = lookup w b"
  by (simp add: close_scope_def lookup_update_builder_other)

text \<open>
  Claim C8. On a miss whose parent builder exists, the decorated function starts in a world
  where the parent builder is what it was before the call. If it raises there, the wrapper
  call raises the same exception; the merge is not reached: the parent builder is exactly
  what the body left, and every object other than the nested builder (whose scope exit still
  runs) is as the body left it. So a body that does not touch the parent builder leaves it
  with no new definition.
\<close>

theorem body_exception_propagates:
  assumes ex: "get_extras w extras' = Some ex"
    and g: "get_guard w (recursion_guard ex) = Some g"
    and miss: "g (cache_key_of is_generic tp) = None"
    and fn: "make_fn_name func fn_name is_generic (cls_name ex) tp = Inr fn"
    and parent: "get_builder w (fn_gen ex) = Some pb"
  shows "\<exists>w_in.
           get_builder w_in (fn_gen ex) = Some pb \<and>
           (\<forall>e w_out.
              run func (body_call cls' tp (length (heap w))) w_in = (Some e, w_out) \<longrightarrow>
              fst (wrapper_logic func fn_name is_generic tp extras' cls' w) = Inl e \<and>
              get_builder (snd (wrapper_logic func fn_name is_generic tp extras' cls' w))
                (fn_gen ex) = get_builder w_out (fn_gen ex) \<and>
              (\<forall>a. a \<noteq> Suc (Suc (length (heap w))) \<longrightarrow>
                 lookup (snd (wrapper_logic func fn_name is_generic tp extras' cls' w)) a
                   = lookup w_out a))"
proof -
  let ?n = "length (heap w)"
  let ?w_in = "body_world fn_name fn (cache_key_of is_generic tp) ex g w"
  have lt: "fn_gen ex < ?n"
    by (rule get_builder_length [OF parent])
  have p: "get_builder ?w_in (fn_gen ex) = Some pb"
    using body_world_lookups(7) [OF ex g lt] parent by simp
  have r: "fst (wrapper_logic func fn_name is_generic tp extras' cls' w) = Inl e \<and>
           get_builder (snd (wrapper_logic func fn_name is_generic tp extras' cls' w))
             (fn_gen ex) = get_builder w_out (fn_gen ex) \<and>
           (\<forall>a. a \<noteq> Suc (Suc ?n) \<longrightarrow>
              lookup (snd (wrapper_logic func fn_name is_generic tp extras' cls' w)) a
                = lookup w_out a)"
    if run: "run func (body_call cls' tp ?n) ?w_in = (Some e, w_out)" for e w_out
  proof -
    have w: "wrapper_logic func fn_name is_generic tp extras' cls' w
               = (Inl e, close_scope fn_name (Suc (Suc ?n)) w_out)"
      using run by (simp add: wrapper_logic_miss [OF ex g miss fn])
    from lt have ne: "Suc (Suc ?n) \<noteq> fn_gen ex" by simp
    show ?thesis
      using ne by (auto simp: w get_builder_close_scope lookup_close_scope_other)
  qed
  show ?thesis
    using p r by blast
qed

theorem body_exception_propagates_witness:
  "\<exists>w_in.
     get_builder w_in
       (fn_gen \<lparr>recursion_guard = 0, cls_name = ''Rec'', fn_gen = 1, locals = 2\<rparr>)
       = Some FunctionBuilder \<and>
     (\<forall>e w_out.
        run (raising ''load_to_dataclass'') (body_call None tp_A (length (heap fresh_world))) w_in
          = (Some e, w_out) \<longrightarrow>
        fst (wrapper_logic (raising ''load_to_dataclass'') None False tp_A 3 None fresh_world)
          = Inl e \<and>
        get_builder
          (snd (wrapper_logic (raising ''load_to_dataclass'') None False tp_A 3 None fresh_world))
          (fn_gen \<lparr>recursion_guard = 0, cls_name = ''Rec'', fn_gen = 1, locals = 2\<rparr>)
          = get_builder w_out
              (fn_gen \<lparr>recursion_guard = 0, cls_name = ''Rec'', fn_gen = 1, locals = 2\<rparr>) \<and>
        (\<forall>a. a \<noteq> Suc (Suc (length (heap fresh_world))) \<longrightarrow>
           lookup
             (snd (wrapper_logic (raising ''load_to_dataclass'') None False tp_A 3 None
                     fresh_world)) a
             = lookup w_out a))"
proof -
  let ?ex = "\<lparr>recursion_guard = 0, cls_name = ''Rec'', fn_gen = 1, locals = 2\<rparr>"
  have e: "get_extras fresh_world 3 = Some ?ex"
    by (rule fresh_world_simps)
  have g: "get_guard fresh_world (recursion_guard ?ex) = Some Map.empty"
    by (simp add: fresh_world_simps)
  have k: "Map.empty (cache_key_of False tp_A) = None" by simp
  have n: "make_fn_name (raising ''load_to_dataclass'') None False (cls_name ?ex) tp_A
             = Inr ''_load_Rec_dataclass_A''"
    by (simp add: make_fn_name_def tp_name_of_dataclass raising_simps tp_A_simps)
  have p: "get_builder fresh_world (fn_gen ?ex) = Some FunctionBuilder"
    using fresh_world_simps(3) by simp
  show ?thesis
    by (rule body_exception_propagates [OF e g k n p])
qed

text \<open>The same call evaluated: the exception comes back and the parent builder is empty.\<close>

lemma raising_body_evaluated:
  "fst (wrapper_logic (raising ''load_to_dataclass'') None False tp_A 3 None fresh_world)
     = Inl (CompilerError ''called'') \<and>
   get_builder
     (snd (wrapper_logic (raising ''load_to_dataclass'') None False tp_A 3 None fresh_world)) 1
     = Some FunctionBuilder"
proof -
  let ?ex = "\<lparr>recursion_guard = 0, cls_name = ''Rec'', fn_gen = 1, locals = 2\<rparr>"
  have e: "get_extras fresh_world 3 = Some ?ex"
    by (rule fresh_world_simps)
  have g: "get_guard fresh_world (recursion_guard ?ex) = Some Map.empty"
    by (simp add: fresh_world_simps)
  have k: "Map.empty (cache_key_of False tp_A) = None" by simp
  have n: "make_fn_name (raising ''load_to_dataclass'') None False (cls_name ?ex) tp_A
             = Inr ''_load_Rec_dataclass_A''"
    by (simp add: make_fn_name_def tp_name_of_dataclass raising_simps tp_A_simps)
  show ?thesis
    unfolding wrapper_logic_miss [OF e g k n]
    using fresh_world_simps(3) body_world_lookups(7) [OF e g, of 1]
    by (simp add: raising_simps get_builder_close_scope fresh_world_simps(4))
qed

section \<open>Generated names\<close>

lemma break_at_first:
  "c \<notin> set a \<Longrightarrow> break_at c (a @ c # r) = Some (a, r)"
  by (induction a) auto

lemma break_at_none: "c \<notin> set s \<Longrightarrow> break_at c s = None"
  by (induction s) auto

lemma tp_name_of_tail:
  assumes "CHR ''_'' \<notin> set a" and "CHR ''_'' \<notin> set b"
    and "func_name f = a @ ''_'' @ b @ ''_'' @ c"
  shows "tp_name_of f = c"
  using assms by (simp add: tp_name_of_def numeral_2_eq_2 break_at_first)

lemma make_fn_name_default:
  assumes "\<not> truthy fn_name"
  shows "make_fn_name func fn_name is_generic cn tp =
           Inr (''_load_'' @ cn @ ''_'' @ tp_name_of func @ ''_'' @
                (if is_generic then str_int (field_i tp) else name tp))"
  using assms by (simp add: make_fn_name_def)

lemma str_int_2: "str_int 2 = ''2''"
  by (simp add: str_int_def digits_of.simps [of 2] digit_char_def)

lemma tp_name_of_examples:
  "tp_name_of (returning ''load_to_dataclass'' n) = ''dataclass''"
  "tp_name_of (returning ''dump_to_dataclass'' n) = ''dataclass''"
  "tp_name_of (returning ''dump_to_namedtuple'' n) = ''namedtuple''"
  "tp_name_of (returning ''load_to_b'' n) = ''b''"
  "tp_name_of (returning ''load_to_b_A'' n) = ''b_A''"
  by (simp_all add: tp_name_of_def returning_simps numeral_2_eq_2)

text \<open>
  Claim C4, as amended. When no format string is supplied (\<^verbatim>\<open>None\<close> or the empty
  string), the generated name is \<^verbatim>\<open>_load_\<close>, the record's display name, the token taken
  from the function's name, and then the decimal field index in generic mode or the
  descriptor's name in non-generic mode, joined by underscores. A non-generic and a generic
  name for the same record are equal exactly when token, underscore and descriptor name read
  the same as the other token, underscore and index; so they differ whenever the two tokens
  are equal and the descriptor's name is not the decimal rendering of the index.
\<close>

theorem default_name_template:
  assumes "\<not> truthy fn_name"
  shows "make_fn_name func fn_name True cn tp
           = Inr (''_load_'' @ cn @ ''_'' @ tp_name_of func @ ''_'' @ str_int (field_i tp)) \<and>
         make_fn_name func fn_name False cn tp
           = Inr (''_load_'' @ cn @ ''_'' @ tp_name_of func @ ''_'' @ name tp) \<and>
         ((make_fn_name func fn_name False cn tp = make_fn_name func' fn_name True cn tp') =
          (tp_name_of func @ ''_'' @ name tp = tp_name_of func' @ ''_'' @ str_int (field_i tp'))) \<and>
         (tp_name_of func' = tp_name_of func \<and> name tp \<noteq> str_int (field_i tp') \<longrightarrow>
          make_fn_name func fn_name False cn tp \<noteq> make_fn_name func' fn_name True cn tp')"
  using assms by (simp add: make_fn_name_default)

theorem default_name_template_witness:
  "make_fn_name (returning ''load_to_dataclass'' 3) None True ''Rec'' tp_B
     = Inr ''_load_Rec_dataclass_2'' \<and>
   make_fn_name (returning ''load_to_dataclass'' 3) None False ''Rec'' tp_A
     = Inr ''_load_Rec_dataclass_A'' \<and>
   make_fn_name (returning ''load_to_dataclass'' 3) None False ''Rec'' tp_A
     \<noteq> make_fn_name (returning ''load_to_dataclass'' 3) None True ''Rec'' tp_B"
proof -
  have t: "\<not> truthy None" by simp
  have s: "str_int (field_i tp_B) = ''2''"
    by (simp add: tp_B_def str_int_2)
  have d: "tp_name_of (returning ''load_to_dataclass'' 3) = ''dataclass''"
    by (rule tp_name_of_examples)
  from default_name_template [OF t, of "returning ''load_to_dataclass'' 3" "''Rec''" tp_B
      "returning ''load_to_dataclass'' 3" tp_B]
    default_name_template [OF t, of "returning ''load_to_dataclass'' 3" "''Rec''" tp_A
      "returning ''load_to_dataclass'' 3" tp_B]
  show ?thesis
    by (simp add: s d tp_A_simps)
qed

text \<open>
  The claim as it was stated fails: the same class \<open>A_2\<close>, once as a plain field of a
  compiler named \<^verbatim>\<open>load_to_b\<close> and once as type argument number 2 of a compiler named
  \<^verbatim>\<open>load_to_b_A\<close>, gets one and the same name.
\<close>

theorem plain_and_generic_names_collide:
  "make_fn_name (returning ''load_to_b'' 2) None False ''C''
     \<lparr>origin = Class ''A_2'', args = [], name = ''A_2'', field_i = 1, v = ''v1''\<rparr>
   = make_fn_name (returning ''load_to_b_A'' 2) None True ''C''
     \<lparr>origin = Class ''list'', args = [Class ''A_2''], name = ''list'', field_i = 2, v = ''v1''\<rparr>"
  by (simp add: make_fn_name_def tp_name_of_examples str_int_2)

text \<open>
  Claim C5, as amended. The token is \<^verbatim>\<open>func.__name__.split('_', 2)[-1]\<close>: the whole
  function name when it has no underscore, the part after the underscore when it has exactly
  one, and the part after the second underscore when it has two or more, so that in a name
  such as \<^verbatim>\<open>load_to_X\<close> or \<^verbatim>\<open>dump_to_X\<close> the leading word does not reach the
  token. When no format string is supplied, the generated name starts with the fixed text
  \<^verbatim>\<open>_load_\<close>, the record's display name, an underscore and the token, and for one record,
  mode and descriptor two compilers get equal names exactly when their tokens are equal.
  When a format string is supplied, the generated name is that string formatted with the
  descriptor's name; it holds no token, so for one format string and descriptor any two
  compilers get equal names.
\<close>

theorem role_token_is_name_tail:
  "(\<not> truthy fn_name \<longrightarrow>
      ((make_fn_name f fn_name is_generic cn tp = make_fn_name f' fn_name is_generic cn tp)
         = (tp_name_of f = tp_name_of f')) \<and>
      (\<exists>rest. make_fn_name f fn_name is_generic cn tp
                = Inr (''_load_'' @ cn @ ''_'' @ tp_name_of f @ rest))) \<and>
   (truthy fn_name \<longrightarrow>
      make_fn_name f fn_name is_generic cn tp = make_fn_name f' fn_name is_generic cn tp \<and>
      (\<exists>fmt. fn_name = Some fmt \<and>
         make_fn_name f fn_name is_generic cn tp = str_format fmt (name tp))) \<and>
   tp_name_of f = last (str_split CHR ''_'' 2 (func_name f)) \<and>
   (CHR ''_'' \<notin> set (func_name f) \<longrightarrow> tp_name_of f = func_name f) \<and>
   (CHR ''_'' \<notin> set a \<and> CHR ''_'' \<notin> set b \<and> func_name f = a @ ''_'' @ b
      \<longrightarrow> tp_name_of f = b) \<and>
   (CHR ''_'' \<notin> set a \<and> CHR ''_'' \<notin> set b \<and> func_name f = a @ ''_'' @ b @ ''_'' @ c
      \<longrightarrow> tp_name_of f = c)"
proof -
  have 1: "\<not> truthy fn_name \<longrightarrow>
      ((make_fn_name f fn_name is_generic cn tp = make_fn_name f' fn_name is_generic cn tp)
         = (tp_name_of f = tp_name_of f')) \<and>
      (\<exists>rest. make_fn_name f fn_name is_generic cn tp
                = Inr (''_load_'' @ cn @ ''_'' @ tp_name_of f @ rest))"
    by (auto simp: make_fn_name_default)
  have 2: "truthy fn_name \<longrightarrow>
      make_fn_name f fn_name is_generic cn tp = make_fn_name f' fn_name is_generic cn tp \<and>
      (\<exists>fmt. fn_name = Some fmt \<and>
         make_fn_name f fn_name is_generic cn tp = str_format fmt (name tp))"
    by (cases fn_name) (simp_all add: make_fn_name_def)
  have 3: "tp_name_of f = last (str_split CHR ''_'' 2 (func_name f))"
    by (simp add: tp_name_of_def)
  have 4: "CHR ''_'' \<notin> set (func_name f) \<longrightarrow> tp_name_of f = func_name f"
    by (simp add: tp_name_of_def numeral_2_eq_2 break_at_none)
  have 5: "CHR ''_'' \<notin> set a \<and> CHR ''_'' \<notin> set b \<and> func_name f = a @ ''_'' @ b
      \<longrightarrow> tp_name_of f = b"
    by (simp add: tp_name_of_def numeral_2_eq_2 break_at_first break_at_none)
  have 6: "CHR ''_'' \<notin> set a \<and> CHR ''_'' \<notin> set b \<and> func_name f = a @ ''_'' @ b @ ''_'' @ c
      \<longrightarrow> tp_name_of f = c"
    using tp_name_of_tail [of a b f c] by simp
  from 1 2 3 4 5 6 show ?thesis by (intro conjI)
qed

theorem role_token_is_name_tail_witness:
  "tp_name_of (returning ''load_to_dataclass'' 3) = ''dataclass'' \<and>
   tp_name_of (returning ''dump_to_namedtuple'' 3) = ''namedtuple'' \<and>
   tp_name_of (returning ''load_x'' 3) = ''x'' \<and>
   tp_name_of (returning ''load'' 3) = ''load'' \<and>
   make_fn_name (returning ''load_to_dataclass'' 3) None False ''Rec'' tp_A
     \<noteq> make_fn_name (returning ''dump_to_namedtuple'' 3) None False ''Rec'' tp_A \<and>
   make_fn_name (returning ''load_to_dataclass'' 3) (Some [Lit ''f_'', Field ''cls_name''])
       False ''Rec'' tp_A
     = make_fn_name (returning ''dump_to_namedtuple'' 3) (Some [Lit ''f_'', Field ''cls_name''])
         False ''Rec'' tp_A"
proof -
  have t: "\<not> truthy None" by simp
  have t': "truthy (Some [Lit ''f_'', Field ''cls_name''])" by simp
  note two = role_token_is_name_tail [of None "returning ''load_to_dataclass'' 3" False
      "''Rec''" tp_A "returning ''dump_to_namedtuple'' 3" "''load''" "''to''" "''dataclass''"]
  note two' = role_token_is_name_tail [of None "returning ''dump_to_namedtuple'' 3" False
      "''Rec''" tp_A "returning ''dump_to_namedtuple'' 3" "''dump''" "''to''" "''namedtuple''"]
  note one = role_token_is_name_tail [of None "returning ''load_x'' 3" False
      "''Rec''" tp_A "returning ''load_x'' 3" "''load''" "''x''" "''''"]
  note none = role_token_is_name_tail [of None "returning ''load'' 3" False
      "''Rec''" tp_A "returning ''load'' 3" "''''" "''''" "''''"]
  note fmt = role_token_is_name_tail [of "Some [Lit ''f_'', Field ''cls_name'']"
      "returning ''load_to_dataclass'' 3" False "''Rec''" tp_A
      "returning ''dump_to_namedtuple'' 3" "''''" "''''" "''''"]
  have u: "CHR ''_'' \<notin> set ''load'' \<and> CHR ''_'' \<notin> set ''to'' \<and>
      func_name (returning ''load_to_dataclass'' 3) = ''load'' @ ''_'' @ ''to'' @ ''_'' @ ''dataclass''"
    by (simp add: returning_simps)
  have u': "CHR ''_'' \<notin> set ''dump'' \<and> CHR ''_'' \<notin> set ''to'' \<and>
      func_name (returning ''dump_to_namedtuple'' 3)
        = ''dump'' @ ''_'' @ ''to'' @ ''_'' @ ''namedtuple''"
    by (simp add: returning_simps)
  have ux: "CHR ''_'' \<notin> set ''load'' \<and> CHR ''_'' \<notin> set ''x'' \<and>
      func_name (returning ''load_x'' 3) = ''load'' @ ''_'' @ ''x''"
    by (simp add: returning_simps)
  have ul: "CHR ''_'' \<notin> set (func_name (returning ''load'' 3))"
    by (simp add: returning_simps)
  have d: "tp_name_of (returning ''load_to_dataclass'' 3) = ''dataclass''"
    using two u by blast
  have d': "tp_name_of (returning ''dump_to_namedtuple'' 3) = ''namedtuple''"
    using two' u' by blast
  have x: "tp_name_of (returning ''load_x'' 3) = ''x''"
    using one ux by blast
  have "tp_name_of (returning ''load'' 3) = func_name (returning ''load'' 3)"
    using none ul by blast
  then have l: "tp_name_of (returning ''load'' 3) = ''load''"
    by (simp add: returning_simps)
  from two t have "(make_fn_name (returning ''load_to_dataclass'' 3) None False ''Rec'' tp_A
           = make_fn_name (returning ''dump_to_namedtuple'' 3) None False ''Rec'' tp_A)
        = (tp_name_of (returning ''load_to_dataclass'' 3)
             = tp_name_of (returning ''dump_to_namedtuple'' 3))"
    by blast
  with d d' have ne: "make_fn_name (returning ''load_to_dataclass'' 3) None False ''Rec'' tp_A
     \<noteq> make_fn_name (returning ''dump_to_namedtuple'' 3) None False ''Rec'' tp_A"
    by simp
  from fmt t' have eq: "make_fn_name (returning ''load_to_dataclass'' 3)
       (Some [Lit ''f_'', Field ''cls_name'']) False ''Rec'' tp_A
     = make_fn_name (returning ''dump_to_namedtuple'' 3) (Some [Lit ''f_'', Field ''cls_name''])
         False ''Rec'' tp_A"
    by blast
  from d d' x l ne eq show ?thesis by (intro conjI)
qed

text \<open>
  The claim as it was stated fails: a loader and a dumper for the same field of the same
  record get one and the same name.
\<close>

theorem loader_and_dumper_names_collide:
  "func_name (returning ''load_to_dataclass'' 3) \<noteq> func_name (returning ''dump_to_dataclass'' 3) \<and>
   make_fn_name (returning ''load_to_dataclass'' 3) None False ''Rec'' tp_A
     = make_fn_name (returning ''dump_to_dataclass'' 3) None False ''Rec'' tp_A"
  by (simp add: make_fn_name_def tp_name_of_examples returning_simps)

section \<open>Decoration\<close>

lemma wrapper_logic_cong:
  assumes nm: "func_name f' = func_name f"
    and run: "\<forall>wi. run f' (body_call cls' tp (length (heap w))) wi
                   = run f (body_call cls' tp (length (heap w))) wi"
  shows "wrapper_logic f' fn_name is_generic tp extras' cls' w
           = wrapper_logic f fn_name is_generic tp extras' cls' w"
proof (cases "get_extras w extras'")
  case None
  then show ?thesis by (simp add: wrapper_logic_def)
next
  case ex: (Some ex)
  show ?thesis
  proof (cases "get_guard w (recursion_guard ex)")
    case None
    with ex show ?thesis by (simp add: wrapper_logic_def)
  next
    case g: (Some g)
    show ?thesis
    proof (cases "g (cache_key_of is_generic tp)")
      case (Some fn)
      show ?thesis
        by (simp add: wrapper_logic_hit [OF ex g Some])
    next
      case miss: None
      have eq: "make_fn_name f' fn_name is_generic (cls_name ex) tp
                  = make_fn_name f fn_name is_generic (cls_name ex) tp"
        by (rule make_fn_name_cong [OF nm])
      show ?thesis
      proof (cases "make_fn_name f fn_name is_generic (cls_name ex) tp")
        case (Inl e)
        with eq have "make_fn_name f' fn_name is_generic (cls_name ex) tp = Inl e" by simp
        then show ?thesis
          by (simp add: wrapper_logic_name_error [OF ex g miss Inl]
              wrapper_logic_name_error [OF ex g miss])
      next
        case (Inr fn)
        with eq have fn': "make_fn_name f' fn_name is_generic (cls_name ex) tp = Inr fn" by simp
        show ?thesis
          using run
          by (simp add: wrapper_logic_miss [OF ex g miss Inr] wrapper_logic_miss [OF ex g miss fn']
              Let_def)
      qed
    qed
  qed
qed

text \<open>
  Two functions as the interpreter sees them: one with three positional parameters and no
  defaults, one with two. Called with the wrong number of arguments they raise
  \<^verbatim>\<open>TypeError\<close>; otherwise they return.
\<close>

definition method_shaped :: "string \<Rightarrow> pyfunc" where
  "method_shaped nm =
     \<lparr>func_name = nm, co_argcount = 3,
      run = (\<lambda>c w. case c of Call3 cl tp ue \<Rightarrow> (None, w) | Call2 tp ue \<Rightarrow> (Some TypeError, w))\<rparr>"

definition plain_shaped :: "string \<Rightarrow> pyfunc" where
  "plain_shaped nm =
     \<lparr>func_name = nm, co_argcount = 2,
      run = (\<lambda>c w. case c of Call2 tp ue \<Rightarrow> (None, w) | Call3 cl tp ue \<Rightarrow> (Some TypeError, w))\<rparr>"

text \<open>
  Claim C7, as amended. Decoration never fails with \<^verbatim>\<open>AmbiguousClassContextError\<close>,
  whatever it is given. A function is always classified, by comparing its declared positional
  parameter count with 3; a callable without a code object makes decoration fail with
  \<^verbatim>\<open>AttributeError\<close>. The classification belongs to decoration: a call of the wrapper
  does not depend on the count.
\<close>

theorem classification_is_total_and_static:
  "setup_recursive_safe_function func fn_name is_generic \<noteq> Inl AmbiguousClassContextError \<and>
   (co_argcount f = 3 \<longrightarrow>
      setup_recursive_safe_function (Some (Function f)) fn_name is_generic
        = Inr (Wrapped (Wrapper_class_method (wrapper_class_method f fn_name is_generic)))) \<and>
   (co_argcount f \<noteq> 3 \<longrightarrow>
      setup_recursive_safe_function (Some (Function f)) fn_name is_generic
        = Inr (Wrapped (Wrapper_logic (wrapper_logic f fn_name is_generic)))) \<and>
   setup_recursive_safe_function (Some (OtherCallable nm)) fn_name is_generic
     = Inl AttributeError \<and>
   setup_recursive_safe_function None fn_name is_generic
     = Inr (Decorator (decorate fn_name is_generic)) \<and>
   (\<forall>n. wrapper_logic (f\<lparr>co_argcount := n\<rparr>) fn_name is_generic tp extras' cls' w
          = wrapper_logic f fn_name is_generic tp extras' cls' w)"
proof -
  have "wrapper_logic (f\<lparr>co_argcount := n\<rparr>) fn_name is_generic tp extras' cls' w
          = wrapper_logic f fn_name is_generic tp extras' cls' w" for n
    by (rule wrapper_logic_cong) simp_all
  then show ?thesis
    by (auto simp: setup_recursive_safe_function_def decorate_def
        split: option.splits callable.splits sum.splits)
qed

theorem classification_is_total_and_static_witness:
  "setup_recursive_safe_function (Some (Function (method_shaped ''load_to_dataclass''))) None False
     = Inr (Wrapped (Wrapper_class_method
              (wrapper_class_method (method_shaped ''load_to_dataclass'') None False))) \<and>
   setup_recursive_safe_function (Some (Function (plain_shaped ''load_to_dataclass''))) None False
     = Inr (Wrapped (Wrapper_logic (wrapper_logic (plain_shaped ''load_to_dataclass'') None False)))"
proof -
  have m: "co_argcount (method_shaped ''load_to_dataclass'') = 3"
    by (simp add: method_shaped_def)
  have p: "co_argcount (plain_shaped ''load_to_dataclass'') \<noteq> 3"
    by (simp add: plain_shaped_def)
  from classification_is_total_and_static
         [of _ None False "method_shaped ''load_to_dataclass''"] m
       classification_is_total_and_static
         [of _ None False "plain_shaped ''load_to_dataclass''"] p
  show ?thesis by blast
qed

text \<open>
  The claim as it was stated fails: a callable whose shape cannot be read, because it has no
  code object, makes decoration fail with another exception.
\<close>

theorem unclassifiable_callable_raises_attribute_error:
  "setup_recursive_safe_function (Some (OtherCallable ''functools.partial'')) None False
     = Inl AttributeError \<and>
   setup_recursive_safe_function (Some (OtherCallable ''functools.partial'')) None False
     \<noteq> Inl AmbiguousClassContextError"
  by (simp add: setup_recursive_safe_function_def decorate_def)

text \<open>
  A function that reports how it was called: its third parameter has a default, so it
  accepts both shapes, and its \<^verbatim>\<open>co_argcount\<close> is 3.
\<close>

definition shape_probe :: "string \<Rightarrow> pyfunc" where
  "shape_probe nm =
     \<lparr>func_name = nm, co_argcount = 3,
      run = (\<lambda>c w. case c of
               Call3 cl tp ue \<Rightarrow> (Some (CompilerError ''func(_cls, tp, extras)''), w)
             | Call2 tp ue \<Rightarrow> (Some (CompilerError ''func(tp, extras)''), w))\<rparr>"

lemma shape_simps:
  "func_name (shape_probe nm) = nm"
  "func_name (method_shaped nm) = nm"
  "func_name (plain_shaped nm) = nm"
  "run (shape_probe nm) (Call2 tp ue) w = (Some (CompilerError ''func(tp, extras)''), w)"
  "run (shape_probe nm) (Call3 cl tp ue) w = (Some (CompilerError ''func(_cls, tp, extras)''), w)"
  "run (method_shaped nm) (Call2 tp ue) w = (Some TypeError, w)"
  "run (method_shaped nm) (Call3 cl tp ue) w = (None, w)"
  "run (plain_shaped nm) (Call2 tp ue) w = (None, w)"
  "run (plain_shaped nm) (Call3 cl tp ue) w = (Some TypeError, w)"
  by (simp_all add: shape_probe_def method_shaped_def plain_shaped_def)

text \<open>
  Claim C10, as amended. Decorating a function never fails: a function whose
  \<^verbatim>\<open>co_argcount\<close> is 3 gets \<^verbatim>\<open>wrapper_class_method\<close>, which takes
  \<^verbatim>\<open>(_cls, tp, extras)\<close> and passes the class context on to \<^verbatim>\<open>_wrapper_logic\<close>; a
  function with any other count gets \<^verbatim>\<open>_wrapper_logic\<close> itself, which takes
  \<^verbatim>\<open>(tp, extras)\<close> and an optional class context. That choice is part of the value that
  decoration returns. The shape of the call of the decorated function is chosen at each call
  of the wrapper, by the class context and not by the classification: on a miss the function
  is called once, in a world that already holds the reserved name, as
  \<^verbatim>\<open>func(_cls, tp, updated_extras)\<close> when the context is a class and as
  \<^verbatim>\<open>func(tp, updated_extras)\<close> when it is \<^verbatim>\<open>None\<close>. What that call raises the wrapper
  raises, what it logged is in the world the wrapper leaves, and the wrapper returns a value
  only if the call returned; no other call of the function matters.
\<close>

theorem call_shape_follows_class_context:
  assumes ex: "get_extras w extras' = Some ex"
    and g: "get_guard w (recursion_guard ex) = Some g"
    and miss: "g (cache_key_of is_generic tp) = None"
    and fn: "make_fn_name f fn_name is_generic (cls_name ex) tp = Inr fn"
  shows "decorate fn_name is_generic (Function f)
           = Inr (if co_argcount f = 3
                  then Wrapper_class_method (wrapper_class_method f fn_name is_generic)
                  else Wrapper_logic (wrapper_logic f fn_name is_generic)) \<and>
         wrapper_class_method f fn_name is_generic cls' tp extras' w
           = wrapper_logic f fn_name is_generic tp extras' cls' w \<and>
         (\<exists>w_in.
            guard_entry w_in (recursion_guard ex) (cache_key_of is_generic tp) = Some fn \<and>
            entered w_in = entered w \<and>
            (\<forall>c r w_out.
               run f (Call3 c tp (length (heap w))) w_in = (r, w_out) \<longrightarrow>
               entered (snd (wrapper_logic f fn_name is_generic tp extras' (Some c) w))
                 = entered w_out \<and>
               (\<forall>e. r = Some e \<longrightarrow>
                  fst (wrapper_logic f fn_name is_generic tp extras' (Some c) w) = Inl e) \<and>
               (\<forall>s. fst (wrapper_logic f fn_name is_generic tp extras' (Some c) w) = Inr s \<longrightarrow>
                  r = None \<and> s = fn @ ''('' @ v tp @ '')'')) \<and>
            (\<forall>r w_out.
               run f (Call2 tp (length (heap w))) w_in = (r, w_out) \<longrightarrow>
               entered (snd (wrapper_logic f fn_name is_generic tp extras' None w))
                 = entered w_out \<and>
               (\<forall>e. r = Some e \<longrightarrow>
                  fst (wrapper_logic f fn_name is_generic tp extras' None w) = Inl e) \<and>
               (\<forall>s. fst (wrapper_logic f fn_name is_generic tp extras' None w) = Inr s \<longrightarrow>
                  r = None \<and> s = fn @ ''('' @ v tp @ '')''))) \<and>
         (\<forall>f'. func_name f' = func_name f \<and>
            (\<forall>wi. run f' (case cls' of Some c \<Rightarrow> Call3 c tp (length (heap w))
                                     | None \<Rightarrow> Call2 tp (length (heap w))) wi
                  = run f (case cls' of Some c \<Rightarrow> Call3 c tp (length (heap w))
                                      | None \<Rightarrow> Call2 tp (length (heap w))) wi)
            \<longrightarrow> wrapper_logic f' fn_name is_generic tp extras' cls' w
                  = wrapper_logic f fn_name is_generic tp extras' cls' w)"
proof -
  let ?n = "length (heap w)"
  let ?w_in = "body_world fn_name fn (cache_key_of is_generic tp) ex g w"
  have d: "decorate fn_name is_generic (Function f)
     = Inr (if co_argcount f = 3
            then Wrapper_class_method (wrapper_class_method f fn_name is_generic)
            else Wrapper_logic (wrapper_logic f fn_name is_generic))"
    by (simp add: decorate_def)
  have e: "wrapper_class_method f fn_name is_generic cls' tp extras' w
     = wrapper_logic f fn_name is_generic tp extras' cls' w"
    by (simp add: wrapper_class_method_def)
  have entry: "guard_entry ?w_in (recursion_guard ex) (cache_key_of is_generic tp) = Some fn"
    by (simp add: guard_entry_def body_world_lookups [OF ex g])
  have log: "entered ?w_in = entered w"
    by (rule body_world_lookups(6) [OF ex g])
  have called: "entered (snd (wrapper_logic f fn_name is_generic tp extras' ctx w))
                  = entered w_out \<and>
                (\<forall>e. r = Some e \<longrightarrow>
                   fst (wrapper_logic f fn_name is_generic tp extras' ctx w) = Inl e) \<and>
                (\<forall>s. fst (wrapper_logic f fn_name is_generic tp extras' ctx w) = Inr s \<longrightarrow>
                   r = None \<and> s = fn @ ''('' @ v tp @ '')'')"
    if run: "run f (body_call ctx tp ?n) ?w_in = (r, w_out)" for ctx r w_out
  proof (cases r)
    case (Some e)
    with run show ?thesis
      by (simp add: wrapper_logic_miss [OF ex g miss fn] close_scope_frame)
  next
    case None
    show ?thesis
    proof (cases "merge_into (fn_gen ex) (Suc (Suc ?n)) (close_scope fn_name (Suc (Suc ?n)) w_out)")
      case (Inl e)
      with run None show ?thesis
        by (simp add: wrapper_logic_miss [OF ex g miss fn] close_scope_frame)
    next
      case (Inr w4)
      with run None show ?thesis
        by (simp add: wrapper_logic_miss [OF ex g miss fn] close_scope_frame
            merge_into_frame [OF Inr] call_expr_def)
    qed
  qed
  have three: "\<forall>c r w_out.
      run f (Call3 c tp ?n) ?w_in = (r, w_out) \<longrightarrow>
      entered (snd (wrapper_logic f fn_name is_generic tp extras' (Some c) w)) = entered w_out \<and>
      (\<forall>e. r = Some e \<longrightarrow>
         fst (wrapper_logic f fn_name is_generic tp extras' (Some c) w) = Inl e) \<and>
      (\<forall>s. fst (wrapper_logic f fn_name is_generic tp extras' (Some c) w) = Inr s \<longrightarrow>
         r = None \<and> s = fn @ ''('' @ v tp @ '')'')"
    using called [of "Some c" for c] by (simp add: body_call_def)
  have two: "\<forall>r w_out.
      run f (Call2 tp ?n) ?w_in = (r, w_out) \<longrightarrow>
      entered (snd (wrapper_logic f fn_name is_generic tp extras' None w)) = entered w_out \<and>
      (\<forall>e. r = Some e \<longrightarrow>
         fst (wrapper_logic f fn_name is_generic tp extras' None w) = Inl e) \<and>
      (\<forall>s. fst (wrapper_logic f fn_name is_generic tp extras' None w) = Inr s \<longrightarrow>
         r = None \<and> s = fn @ ''('' @ v tp @ '')'')"
    using called [of None] by (simp add: body_call_def)
  have only: "\<forall>f'. func_name f' = func_name f \<and>
      (\<forall>wi. run f' (case cls' of Some c \<Rightarrow> Call3 c tp ?n | None \<Rightarrow> Call2 tp ?n) wi
            = run f (case cls' of Some c \<Rightarrow> Call3 c tp ?n | None \<Rightarrow> Call2 tp ?n) wi)
      \<longrightarrow> wrapper_logic f' fn_name is_generic tp extras' cls' w
            = wrapper_logic f fn_name is_generic tp extras' cls' w"
  proof (intro allI impI)
    fix f' :: pyfunc
    assume a: "func_name f' = func_name f \<and>
      (\<forall>wi. run f' (case cls' of Some c \<Rightarrow> Call3 c tp ?n | None \<Rightarrow> Call2 tp ?n) wi
            = run f (case cls' of Some c \<Rightarrow> Call3 c tp ?n | None \<Rightarrow> Call2 tp ?n) wi)"
    show "wrapper_logic f' fn_name is_generic tp extras' cls' w
            = wrapper_logic f fn_name is_generic tp extras' cls' w"
      by (rule wrapper_logic_cong) (use a in \<open>simp_all add: body_call_def\<close>)
  qed
  have body: "\<exists>w_in.
      guard_entry w_in (recursion_guard ex) (cache_key_of is_generic tp) = Some fn \<and>
      entered w_in = entered w \<and>
      (\<forall>c r w_out.
         run f (Call3 c tp ?n) w_in = (r, w_out) \<longrightarrow>
         entered (snd (wrapper_logic f fn_name is_generic tp extras' (Some c) w)) = entered w_out \<and>
         (\<forall>e. r = Some e \<longrightarrow>
            fst (wrapper_logic f fn_name is_generic tp extras' (Some c) w) = Inl e) \<and>
         (\<forall>s. fst (wrapper_logic f fn_name is_generic tp extras' (Some c) w) = Inr s \<longrightarrow>
            r = None \<and> s = fn @ ''('' @ v tp @ '')'')) \<and>
      (\<forall>r w_out.
         run f (Call2 tp ?n) w_in = (r, w_out) \<longrightarrow>
         entered (snd (wrapper_logic f fn_name is_generic tp extras' None w)) = entered w_out \<and>
         (\<forall>e. r = Some e \<longrightarrow>
            fst (wrapper_logic f fn_name is_generic tp extras' None w) = Inl e) \<and>
         (\<forall>s. fst (wrapper_logic f fn_name is_generic tp extras' None w) = Inr s \<longrightarrow>
            r = None \<and> s = fn @ ''('' @ v tp @ '')''))"
    by (rule exI [of _ ?w_in]) (intro conjI entry log three two)
  show ?thesis
    by (intro conjI d e body only)
qed

theorem call_shape_follows_class_context_witness:
  "decorate None False (Function (method_shaped ''load_to_dataclass''))
     = Inr (if co_argcount (method_shaped ''load_to_dataclass'') = 3
            then Wrapper_class_method
                   (wrapper_class_method (method_shaped ''load_to_dataclass'') None False)
            else Wrapper_logic (wrapper_logic (method_shaped ''load_to_dataclass'') None False)) \<and>
   wrapper_class_method (method_shaped ''load_to_dataclass'') None False
       (Some (Class ''Loader'')) tp_A 3 fresh_world
     = wrapper_logic (method_shaped ''load_to_dataclass'') None False tp_A 3
         (Some (Class ''Loader'')) fresh_world \<and>
   (\<exists>w_in.
      guard_entry w_in
        (recursion_guard \<lparr>recursion_guard = 0, cls_name = ''Rec'', fn_gen = 1, locals = 2\<rparr>)
        (cache_key_of False tp_A) = Some ''_load_Rec_dataclass_A'' \<and>
      entered w_in = entered fresh_world \<and>
      (\<forall>c r w_out.
         run (method_shaped ''load_to_dataclass'') (Call3 c tp_A (length (heap fresh_world))) w_in
           = (r, w_out) \<longrightarrow>
         entered (snd (wrapper_logic (method_shaped ''load_to_dataclass'') None False tp_A 3
                         (Some c) fresh_world))
           = entered w_out \<and>
         (\<forall>e. r = Some e \<longrightarrow>
            fst (wrapper_logic (method_shaped ''load_to_dataclass'') None False tp_A 3
                   (Some c) fresh_world) = Inl e) \<and>
         (\<forall>s. fst (wrapper_logic (method_shaped ''load_to_dataclass'') None False tp_A 3
                     (Some c) fresh_world) = Inr s \<longrightarrow>
            r = None \<and> s = ''_load_Rec_dataclass_A'' @ ''('' @ v tp_A @ '')'')) \<and>
      (\<forall>r w_out.
         run (method_shaped ''load_to_dataclass'') (Call2 tp_A (length (heap fresh_world))) w_in
           = (r, w_out) \<longrightarrow>
         entered (snd (wrapper_logic (method_shaped ''load_to_dataclass'') None False tp_A 3
                         None fresh_world))
           = entered w_out \<and>
         (\<forall>e. r = Some e \<longrightarrow>
            fst (wrapper_logic (method_shaped ''load_to_dataclass'') None False tp_A 3
                   None fresh_world) = Inl e) \<and>
         (\<forall>s. fst (wrapper_logic (method_shaped ''load_to_dataclass'') None False tp_A 3
                     None fresh_world) = Inr s \<longrightarrow>
            r = None \<and> s = ''_load_Rec_dataclass_A'' @ ''('' @ v tp_A @ '')''))) \<and>
   wrapper_logic (returning ''load_to_dataclass'' 3) None False tp_A 3 (Some (Class ''Loader''))
       fresh_world
     = wrapper_logic (method_shaped ''load_to_dataclass'') None False tp_A 3
         (Some (Class ''Loader'')) fresh_world"
proof -
  let ?ex = "\<lparr>recursion_guard = 0, cls_name = ''Rec'', fn_gen = 1, locals = 2\<rparr>"
  have e: "get_extras fresh_world 3 = Some ?ex"
    by (rule fresh_world_simps)
  have g: "get_guard fresh_world (recursion_guard ?ex) = Some Map.empty"
    by (simp add: fresh_world_simps)
  have k: "Map.empty (cache_key_of False tp_A) = None" by simp
  have n: "make_fn_name (method_shaped ''load_to_dataclass'') None False (cls_name ?ex) tp_A
             = Inr ''_load_Rec_dataclass_A''"
    by (simp add: make_fn_name_def tp_name_of_dataclass shape_simps tp_A_simps)
  note t = call_shape_follows_class_context [OF e g k n, of "Some (Class ''Loader'')"]
  have same: "func_name (returning ''load_to_dataclass'' 3)
                = func_name (method_shaped ''load_to_dataclass'') \<and>
      (\<forall>wi. run (returning ''load_to_dataclass'' 3)
               (case Some (Class ''Loader'') of
                  Some c \<Rightarrow> Call3 c tp_A (length (heap fresh_world))
                | None \<Rightarrow> Call2 tp_A (length (heap fresh_world))) wi
            = run (method_shaped ''load_to_dataclass'')
                (case Some (Class ''Loader'') of
                   Some c \<Rightarrow> Call3 c tp_A (length (heap fresh_world))
                 | None \<Rightarrow> Call2 tp_A (length (heap fresh_world))) wi)"
    by (simp add: shape_simps returning_simps)
  have only: "wrapper_logic (returning ''load_to_dataclass'' 3) None False tp_A 3
                (Some (Class ''Loader'')) fresh_world
              = wrapper_logic (method_shaped ''load_to_dataclass'') None False tp_A 3
                  (Some (Class ''Loader'')) fresh_world"
    by (rule t [THEN conjunct2, THEN conjunct2, THEN conjunct2, rule_format, OF same])
  show ?thesis
    by (intro conjI t [THEN conjunct1] t [THEN conjunct2, THEN conjunct1]
        t [THEN conjunct2, THEN conjunct2, THEN conjunct1] only)
qed

text \<open>
  The two intended uses evaluated: a three-parameter function reached through its wrapper
  with a class, and a two-parameter function reached as \<^verbatim>\<open>(tp, extras)\<close>, are called with
  the shape they accept and the wrapper returns the call expression.
\<close>

lemma intended_shapes_evaluated:
  "wrapper_class_method (method_shaped ''load_to_dataclass'') None False (Some (Class ''Loader''))
       tp_A 3 fresh_world
     = (Inr ''_load_Rec_dataclass_A(v1)'', world_after_A) \<and>
   wrapper_logic (plain_shaped ''load_to_dataclass'') None False tp_A 3 None fresh_world
     = (Inr ''_load_Rec_dataclass_A(v1)'', world_after_A)"
proof -
  have 1: "wrapper_logic (method_shaped ''load_to_dataclass'') None False tp_A 3
             (Some (Class ''Loader'')) fresh_world
           = wrapper_logic (returning ''load_to_dataclass'' 2) None False tp_A 3
               (Some (Class ''Loader'')) fresh_world"
    by (rule wrapper_logic_cong) (simp_all add: shape_simps returning_simps body_call_def)
  have 2: "wrapper_logic (returning ''load_to_dataclass'' 2) None False tp_A 3
             (Some (Class ''Loader'')) fresh_world
           = wrapper_logic (returning ''load_to_dataclass'' 2) None False tp_A 3 None fresh_world"
  proof -
    let ?ex = "\<lparr>recursion_guard = 0, cls_name = ''Rec'', fn_gen = 1, locals = 2\<rparr>"
    have e: "get_extras fresh_world 3 = Some ?ex"
      by (rule fresh_world_simps)
    have g: "get_guard fresh_world (recursion_guard ?ex) = Some Map.empty"
      by (simp add: fresh_world_simps)
    have k: "Map.empty (cache_key_of False tp_A) = None" by simp
    have n: "make_fn_name (returning ''load_to_dataclass'' 2) None False (cls_name ?ex) tp_A
               = Inr ''_load_Rec_dataclass_A''"
      by (simp add: name_A)
    show ?thesis
      by (simp add: wrapper_logic_miss [OF e g k n] returning_simps)
  qed
  have 3: "wrapper_logic (plain_shaped ''load_to_dataclass'') None False tp_A 3 None fresh_world
           = wrapper_logic (returning ''load_to_dataclass'' 2) None False tp_A 3 None fresh_world"
    by (rule wrapper_logic_cong) (simp_all add: shape_simps returning_simps body_call_def)
  from 1 2 3 show ?thesis
    by (simp add: wrapper_class_method_def first_call)
qed

text \<open>
  The claim as it was stated fails: a function with three declared parameters is classified
  as class-context-shaped, yet when its wrapper is called with \<^verbatim>\<open>None\<close> as the class
  context it is called as \<^verbatim>\<open>func(tp, updated_extras)\<close>; and a function that requires
  all three parameters then raises.
\<close>

theorem class_method_wrapper_without_class_calls_with_two_arguments:
  "decorate None False (Function (shape_probe ''load_to_dataclass''))
     = Inr (Wrapper_class_method (wrapper_class_method (shape_probe ''load_to_dataclass'')
              None False)) \<and>
   fst (wrapper_class_method (shape_probe ''load_to_dataclass'') None False None tp_A 3
          fresh_world)
     = Inl (CompilerError ''func(tp, extras)'') \<and>
   fst (wrapper_class_method (method_shaped ''load_to_dataclass'') None False None tp_A 3
          fresh_world)
     = Inl TypeError"
proof -
  let ?ex = "\<lparr>recursion_guard = 0, cls_name = ''Rec'', fn_gen = 1, locals = 2\<rparr>"
  have e: "get_extras fresh_world 3 = Some ?ex"
    by (rule fresh_world_simps)
  have g: "get_guard fresh_world (recursion_guard ?ex) = Some Map.empty"
    by (simp add: fresh_world_simps)
  have k: "Map.empty (cache_key_of False tp_A) = None" by simp
  have n: "make_fn_name (shape_probe ''load_to_dataclass'') None False (cls_name ?ex) tp_A
             = Inr ''_load_Rec_dataclass_A''"
    by (simp add: make_fn_name_def tp_name_of_dataclass shape_simps tp_A_simps)
  have n': "make_fn_name (method_shaped ''load_to_dataclass'') None False (cls_name ?ex) tp_A
             = Inr ''_load_Rec_dataclass_A''"
    by (simp add: make_fn_name_def tp_name_of_dataclass shape_simps tp_A_simps)
  have 1: "decorate None False (Function (shape_probe ''load_to_dataclass''))
     = Inr (Wrapper_class_method (wrapper_class_method (shape_probe ''load_to_dataclass'')
              None False))"
    by (simp add: decorate_def shape_probe_def)
  have 2: "fst (wrapper_class_method (shape_probe ''load_to_dataclass'') None False None tp_A 3
          fresh_world) = Inl (CompilerError ''func(tp, extras)'')"
    by (simp add: wrapper_class_method_def wrapper_logic_miss [OF e g k n] body_call_def
        shape_simps)
  have 3: "fst (wrapper_class_method (method_shaped ''load_to_dataclass'') None False None tp_A 3
          fresh_world) = Inl TypeError"
    by (simp add: wrapper_class_method_def wrapper_logic_miss [OF e g k n'] body_call_def
        shape_simps)
  from 1 2 3 show ?thesis by (intro conjI)
qed

section \<open>Compilers driven by a type-dependency graph\<close>

text \<open>
  Modelled from the spec: the per-field compilers, the functions that the wrapper decorates,
  are not among the sources. In the spec (sections 2, 4.3 and 6) there is one per-field
  compiler for each kind of field; it takes the descriptor and the extras, invokes the
  wrapper for the type of each field, emits statements into the procedure that is open, and
  returns nothing. A decoration fixes the compiler's function name, its parameter count, the
  format string and the generic mode; the compilers of one compilation may differ in all of
  them and share one guard.
\<close>

record compiler_spec =
  c_name :: string
  c_argcount :: nat
  c_fn_name :: "format_string option"
  c_is_generic :: bool

text \<open>
  A request names the decorated compiler that a field's type is dispatched to, and the
  field's descriptor. The graph gives, for every cache key, the requests that the compiler
  of that type makes for its fields. A self-referential type, or a cycle of types, is a
  cycle of the graph.
\<close>

type_synonym request = "compiler_spec \<times> typeinfo"

type_synonym graph = "cache_key \<Rightarrow> request list"

definition request_key :: "request \<Rightarrow> cache_key" where
  "request_key rq = cache_key_of (c_is_generic (fst rq)) (snd rq)"

text \<open>\<^verbatim>\<open>extras['fn_gen'].emit(stmt)\<close>, with the builder operation of the spec.\<close>

definition emit_at :: "addr \<Rightarrow> string \<Rightarrow> world \<Rightarrow> error + world" where
  "emit_at extras' stmt w =
     (case get_extras w extras' of
        None \<Rightarrow> Inl TypeError
      | Some ex \<Rightarrow>
          (case get_builder w (fn_gen ex) of
             None \<Rightarrow> Inl TypeError
           | Some fb \<Rightarrow>
               (case emit stmt fb of
                  Inl e \<Rightarrow> Inl e
                | Inr fb' \<Rightarrow> Inr (store (fn_gen ex) (Builder fb') w))))"

text \<open>
  Field by field: request the field's type through the wrapper, then emit one statement
  holding the returned call expression. The first exception ends the loop.
\<close>

fun request_fields ::
  "(request \<Rightarrow> addr \<Rightarrow> world \<Rightarrow> (error + string) \<times> world) \<Rightarrow> request list \<Rightarrow> addr \<Rightarrow> world \<Rightarrow>
   error option \<times> world" where
  "request_fields compile_field [] extras' w = (None, w)"
| "request_fields compile_field (rq # rqs) extras' w =
     (case compile_field rq extras' w of
        (Inl e, w1) \<Rightarrow> (Some e, w1)
      | (Inr expr, w1) \<Rightarrow>
          (case emit_at extras' (name (snd rq) @ '' = '' @ expr) w1 of
             Inl e \<Rightarrow> (Some e, w1)
           | Inr w2 \<Rightarrow> request_fields compile_field rqs extras' w2))"

text \<open>
  With a format string the decorator leaves the procedure scope to the decorated function
  (docstring of \<^verbatim>\<open>setup_recursive_safe_function\<close>, lines 20 to 22): such a compiler
  opens the scope itself, in the builder of the extras it was given, under the name that the
  format string gives for the descriptor. Without a format string the wrapper has opened the
  scope already.
\<close>

definition own_scope ::
  "format_string option \<Rightarrow> typeinfo \<Rightarrow> addr \<Rightarrow> (world \<Rightarrow> error option \<times> world) \<Rightarrow> world \<Rightarrow>
   error option \<times> world" where
  "own_scope fn_name tp extras' body w =
     (if truthy fn_name
      then (case get_extras w extras' of
              None \<Rightarrow> (Some TypeError, w)
            | Some ex \<Rightarrow>
                (case fn_name of
                   None \<Rightarrow> body w
                 | Some fmt \<Rightarrow>
                     (case str_format fmt (name tp) of
                        Inl e \<Rightarrow> (Some e, w)
                      | Inr fn \<Rightarrow>
                          with_function (fn_gen ex) fn [''v1''] MISSING (locals ex) body w)))
      else body w)"

text \<open>
  The body of the compiler with decoration \<open>c\<close>: it notes its entry in the log and requests
  the fields that the graph lists for the descriptor's cache key, each through the wrapper
  of the compiler named in the request; \<open>inner\<close> gives the functions that those wrappers
  decorate. The extras and the class context are passed on.
\<close>

definition graph_body ::
  "(compiler_spec \<Rightarrow> pyfunc) \<Rightarrow> graph \<Rightarrow> compiler_spec \<Rightarrow> pytype option \<Rightarrow> typeinfo \<Rightarrow> addr \<Rightarrow>
   world \<Rightarrow> error option \<times> world" where
  "graph_body inner G c cls' tp extras' w =
     own_scope (c_fn_name c) tp extras'
       (request_fields
          (\<lambda>rq ex. wrapper_logic (inner (fst rq)) (c_fn_name (fst rq)) (c_is_generic (fst rq))
                     (snd rq) ex cls')
          (G (cache_key_of (c_is_generic c) tp)) extras')
       (w\<lparr>entered := entered w @ [cache_key_of (c_is_generic c) tp]\<rparr>)"

text \<open>
  The compilers call the wrapper, which calls the compilers: the recursion is cut by a depth
  budget. With budget \<open>n\<close> the bodies may nest \<open>n\<close> deep; a body entered with no budget
  left raises \<open>DepthExceeded\<close>, which nothing else raises.
\<close>

fun graph_compiler :: "nat \<Rightarrow> graph \<Rightarrow> compiler_spec \<Rightarrow> pyfunc" where
  "graph_compiler 0 G c =
     \<lparr>func_name = c_name c, co_argcount = c_argcount c,
      run = (\<lambda>cl w. (Some DepthExceeded, w))\<rparr>"
| "graph_compiler (Suc n) G c =
     \<lparr>func_name = c_name c, co_argcount = c_argcount c,
      run = (\<lambda>cl w. case cl of
               Call2 tp ue \<Rightarrow> graph_body (\<lambda>c'. graph_compiler n G c') G c None tp ue w
             | Call3 k tp ue \<Rightarrow> graph_body (\<lambda>c'. graph_compiler n G c') G c (Some k) tp ue w)\<rparr>"

text \<open>
  A top-level request with a depth budget: \<open>None\<close> when the budget did not suffice,
  otherwise what the wrapper returned or raised, and the world.
\<close>

definition compile ::
  "nat \<Rightarrow> graph \<Rightarrow> request \<Rightarrow> addr \<Rightarrow> pytype option \<Rightarrow> world \<Rightarrow>
   ((error + string) \<times> world) option" where
  "compile depth G rq extras' cls' w =
     (let r = wrapper_logic (graph_compiler depth G (fst rq)) (c_fn_name (fst rq))
                (c_is_generic (fst rq)) (snd rq) extras' cls' w
      in if fst r = Inl DepthExceeded then None else Some r)"

text \<open>The cache keys that a request for \<open>k0\<close> can lead to: the distinct types of the graph.\<close>

inductive_set reachable :: "graph \<Rightarrow> cache_key \<Rightarrow> cache_key set"
  for G :: graph and k0 :: cache_key where
  root: "k0 \<in> reachable G k0"
| field: "k \<in> reachable G k0 \<Longrightarrow> rq \<in> set (G k) \<Longrightarrow> request_key rq \<in> reachable G k0"

lemma func_name_graph_compiler [simp]: "func_name (graph_compiler n G c) = c_name c"
  by (cases n) simp_all

lemma run_graph_compiler_Suc:
  "run (graph_compiler (Suc n) G c) (body_call cls' tp ue) w
     = graph_body (graph_compiler n G) G c cls' tp ue w"
  by (cases cls') (simp_all add: body_call_def)

declare graph_compiler.simps [simp del]
subsection \<open>What a compilation does to the guard and to the log\<close>

text \<open>
  \<open>unchanged\<close>: a step that touches builders only. \<open>grows\<close>: a step after which the
  heap is no shorter, every extras object is as before, the guard at \<open>rg\<close> has kept its
  entries, and the keys it has gained are exactly the keys newly logged, each once, all of
  them keys of \<open>K\<close>.
\<close>

definition unchanged :: "world \<Rightarrow> world \<Rightarrow> bool" where
  "unchanged w w' \<longleftrightarrow>
     length (heap w') = length (heap w) \<and>
     (\<forall>a. get_extras w' a = get_extras w a) \<and>
     (\<forall>a. get_guard w' a = get_guard w a) \<and>
     entered w' = entered w"

definition grows :: "addr \<Rightarrow> cache_key set \<Rightarrow> world \<Rightarrow> world \<Rightarrow> bool" where
  "grows rg K w w' \<longleftrightarrow>
     length (heap w) \<le> length (heap w') \<and>
     (\<forall>a e. get_extras w a = Some e \<longrightarrow> get_extras w' a = Some e) \<and>
     (\<exists>g g' new.
        get_guard w rg = Some g \<and> get_guard w' rg = Some g' \<and> g \<subseteq>\<^sub>m g' \<and>
        entered w' = entered w @ new \<and> distinct new \<and> set new \<subseteq> K \<and>
        dom g' = dom g \<union> set new \<and> set new \<inter> dom g = {})"

lemma unchanged_refl: "unchanged w w"
  by (simp add: unchanged_def)

lemma unchanged_update_builder: "unchanged w (update_builder a f w)"
  by (simp add: unchanged_def update_builder_frame)

lemma unchanged_close_scope: "unchanged w (close_scope fn_name a w)"
  by (simp add: unchanged_def close_scope_frame)

lemma unchanged_merge_into: "merge_into main new w = Inr w' \<Longrightarrow> unchanged w w'"
  by (simp add: unchanged_def merge_into_frame)

lemma unchanged_store_builder:
  assumes "get_builder w a = Some b"
  shows "unchanged w (store a (Builder b') w)"
  using assms
  by (auto simp: unchanged_def get_extras_def get_guard_def get_builder_def lookup_def
      store_def nth_list_update split: option.splits obj.splits if_splits)

lemma unchanged_emit_at: "emit_at ex' stmt w = Inr w' \<Longrightarrow> unchanged w w'"
  by (auto simp: emit_at_def unchanged_store_builder split: option.splits sum.splits)

lemma grows_refl: "get_guard w rg = Some g \<Longrightarrow> grows rg K w w"
  by (simp add: grows_def)

lemma grows_unchanged:
  assumes "grows rg K w w'" and "unchanged w' w''"
  shows "grows rg K w w''"
  using assms by (auto simp: grows_def unchanged_def)

lemma grows_trans:
  assumes a: "grows rg K w w'" and b: "grows rg K w' w''"
  shows "grows rg K w w''"
proof -
  from a obtain g g' new where
    g: "get_guard w rg = Some g" and g': "get_guard w' rg = Some g'" and
    le: "g \<subseteq>\<^sub>m g'" and log: "entered w' = entered w @ new" and
    d: "distinct new" and k: "set new \<subseteq> K" and
    dm: "dom g' = dom g \<union> set new" and dj: "set new \<inter> dom g = {}"
    by (auto simp: grows_def)
  from b g' obtain g'' new' where
    g'': "get_guard w'' rg = Some g''" and
    le': "g' \<subseteq>\<^sub>m g''" and log': "entered w'' = entered w' @ new'" and
    d': "distinct new'" and k': "set new' \<subseteq> K" and
    dm': "dom g'' = dom g' \<union> set new'" and dj': "set new' \<inter> dom g' = {}"
    by (auto simp: grows_def)
  have 1: "g \<subseteq>\<^sub>m g''" using le le' by (rule map_le_trans)
  have 2: "entered w'' = entered w @ (new @ new')" using log log' by simp
  have 3: "distinct (new @ new')" using d d' dm dj' by auto
  have 4: "set (new @ new') \<subseteq> K" using k k' by simp
  have 5: "dom g'' = dom g \<union> set (new @ new')" using dm dm' by auto
  have 6: "set (new @ new') \<inter> dom g = {}" using dj dj' dm by auto
  have 7: "length (heap w) \<le> length (heap w'')"
    using a b by (auto simp: grows_def)
  have 8: "\<forall>a e. get_extras w a = Some e \<longrightarrow> get_extras w'' a = Some e"
    using a b by (auto simp: grows_def)
  show ?thesis
    unfolding grows_def using g g'' 1 2 3 4 5 6 7 8 by blast
qed

lemma grows_guard:
  assumes "grows rg K w w'" and "get_guard w rg = Some g"
  shows "\<exists>g'. get_guard w' rg = Some g' \<and> dom g \<subseteq> dom g'"
  using assms by (auto simp: grows_def)

lemma grows_extras:
  assumes "grows rg K w w'" and "get_extras w a = Some e"
  shows "get_extras w' a = Some e"
  using assms by (auto simp: grows_def)

lemma lookup_entered_update [simp]: "lookup (w\<lparr>entered := x\<rparr>) a = lookup w a"
  by (simp add: lookup_def)

lemma get_entered_update [simp]:
  "get_extras (w\<lparr>entered := x\<rparr>) a = get_extras w a"
  "get_guard (w\<lparr>entered := x\<rparr>) a = get_guard w a"
  "get_builder (w\<lparr>entered := x\<rparr>) a = get_builder w a"
  by (simp_all add: get_extras_def get_guard_def get_builder_def)

lemma get_extras_body_world:
  assumes "get_guard w (recursion_guard ex) = Some g" and "get_extras w a = Some e"
  shows "get_extras (body_world fn_name fn cls ex g w) a = Some e"
  using assms get_guard_length [OF assms(1)] get_extras_length [OF assms(2)]
  by (auto simp: body_world_eq get_guard_def get_extras_def lookup_def nth_append
      nth_list_update split: option.splits obj.splits)

lemma length_body_world:
  assumes "get_guard w (recursion_guard ex) = Some g"
  shows "length (heap (body_world fn_name fn cls ex g w)) = length (heap w) + 3"
  using get_guard_length [OF assms] by (simp add: body_world_eq)

lemma grows_reserve:
  assumes ex: "get_extras w ex' = Some ex"
    and g: "get_guard w (recursion_guard ex) = Some g"
    and miss: "g k = None"
    and kK: "k \<in> K"
  shows "grows (recursion_guard ex) K w
           ((body_world fn_name fn k ex g w)\<lparr>entered := entered w @ [k]\<rparr>)"
proof -
  let ?w = "(body_world fn_name fn k ex g w)\<lparr>entered := entered w @ [k]\<rparr>"
  have 1: "length (heap w) \<le> length (heap ?w)"
    by (simp add: length_body_world [OF g])
  have 2: "\<forall>a e. get_extras w a = Some e \<longrightarrow> get_extras ?w a = Some e"
    by (simp add: get_extras_body_world [OF g])
  have 3: "get_guard ?w (recursion_guard ex) = Some (g(k \<mapsto> fn))"
    by (simp add: body_world_lookups(1) [OF ex g])
  have 4: "g \<subseteq>\<^sub>m g(k \<mapsto> fn)"
    using miss by (auto simp: map_le_def)
  have 5: "entered ?w = entered w @ [k]" by simp
  have 6: "dom (g(k \<mapsto> fn)) = dom g \<union> set [k]" by auto
  have 7: "set [k] \<inter> dom g = {}" using miss by auto
  have 8: "distinct [k]" "set [k] \<subseteq> K" using kK by simp_all
  show ?thesis
    unfolding grows_def using 1 2 g 3 4 5 6 7 8 by blast
qed

lemma str_format_error: "str_format ps x = Inl e \<Longrightarrow> e = KeyError"
  by (induction ps x rule: str_format.induct) (auto split: sum.splits if_splits)

lemma make_fn_name_error: "make_fn_name f fn_name is_generic cn tp = Inl e \<Longrightarrow> e = KeyError"
  by (auto simp: make_fn_name_def Let_def dest: str_format_error
      split: if_splits option.splits)

lemma emit_at_error: "emit_at ex' stmt w = Inl e \<Longrightarrow> e \<noteq> DepthExceeded"
  by (auto simp: emit_at_def emit_def split: option.splits sum.splits list.splits)

lemma merge_into_error: "merge_into main new w = Inl e \<Longrightarrow> e \<noteq> DepthExceeded"
  by (auto simp: merge_into_def merge_def split: option.splits sum.splits list.splits)

lemma card_diff_dom_mono:
  assumes "finite K" and "dom g \<subseteq> dom g'"
  shows "card (K - dom g') \<le> card (K - dom g)"
  by (rule card_mono) (use assms in auto)


lemma unchanged_trans: "unchanged w w' \<Longrightarrow> unchanged w' w'' \<Longrightarrow> unchanged w w''"
  by (simp add: unchanged_def)

lemma unchanged_grows:
  assumes "unchanged w w'" and "grows rg K w' w''"
  shows "grows rg K w w''"
  using assms by (auto simp: grows_def unchanged_def)

lemma unchanged_get:
  assumes "unchanged w w'"
  shows "get_extras w' a = get_extras w a" and "get_guard w' a = get_guard w a"
    and "entered w' = entered w"
  using assms by (simp_all add: unchanged_def)

text \<open>
  \<open>settled\<close>: every key that the guard at \<open>rg\<close> has gained has all the keys of its
  fields in the guard.
\<close>

definition settled :: "graph \<Rightarrow> addr \<Rightarrow> world \<Rightarrow> world \<Rightarrow> bool" where
  "settled G rg w w' \<longleftrightarrow>
     (\<exists>g g'. get_guard w rg = Some g \<and> get_guard w' rg = Some g' \<and>
        (\<forall>k\<in>dom g' - dom g. \<forall>rq\<in>set (G k). request_key rq \<in> dom g'))"

lemma settled_refl: "get_guard w rg = Some g \<Longrightarrow> settled G rg w w"
  by (simp add: settled_def)

lemma settled_unchanged:
  assumes "settled G rg w w'" and "unchanged w' w''"
  shows "settled G rg w w''"
  using assms by (auto simp: settled_def unchanged_def)

lemma unchanged_settled:
  assumes "unchanged w w'" and "settled G rg w' w''"
  shows "settled G rg w w''"
  using assms by (auto simp: settled_def unchanged_def)

lemma settled_trans:
  assumes a: "settled G rg w w'" and b: "settled G rg w' w''" and gr: "grows rg K w' w''"
  shows "settled G rg w w''"
proof -
  from a obtain g g' where g: "get_guard w rg = Some g" and g': "get_guard w' rg = Some g'"
    and s: "\<forall>k\<in>dom g' - dom g. \<forall>rq\<in>set (G k). request_key rq \<in> dom g'"
    by (auto simp: settled_def)
  from b g' obtain g'' where g'': "get_guard w'' rg = Some g''"
    and s': "\<forall>k\<in>dom g'' - dom g'. \<forall>rq\<in>set (G k). request_key rq \<in> dom g''"
    by (auto simp: settled_def)
  from grows_guard [OF gr g'] g'' have sub: "dom g' \<subseteq> dom g''" by simp
  have "\<forall>k\<in>dom g'' - dom g. \<forall>rq\<in>set (G k). request_key rq \<in> dom g''"
  proof (intro ballI)
    fix k rq assume k: "k \<in> dom g'' - dom g" and rq: "rq \<in> set (G k)"
    show "request_key rq \<in> dom g''"
    proof (cases "k \<in> dom g'")
      case True
      with k s rq have "request_key rq \<in> dom g'" by blast
      with sub show ?thesis by blast
    next
      case False
      with k s' rq show ?thesis by blast
    qed
  qed
  with g g'' show ?thesis by (auto simp: settled_def)
qed

lemma grows_entry:
  assumes "grows rg K w w'" and "guard_entry w rg k = Some fn"
  shows "guard_entry w' rg k = Some fn"
proof -
  from assms(2) obtain g where g: "get_guard w rg = Some g" "g k = Some fn"
    by (auto simp: guard_entry_def split: option.splits)
  from assms(1) g(1) obtain g' where "get_guard w' rg = Some g'" "g \<subseteq>\<^sub>m g'"
    by (auto simp: grows_def)
  with g(2) show ?thesis
    by (auto simp: guard_entry_def map_le_def dom_def)
qed

lemma unchanged_entry:
  assumes "unchanged w w'"
  shows "guard_entry w' rg k = guard_entry w rg k"
  using assms by (simp add: guard_entry_def unchanged_def)

text \<open>
  A compiler that opens its own scope either runs its body between two steps that touch
  builders only, or raises before the body, leaving the world as it is.
\<close>

lemma own_scope_cases:
  assumes "own_scope fn_name tp ue body w = (r, w')"
  shows "(\<exists>w0 w1. unchanged w w0 \<and> body w0 = (r, w1) \<and> unchanged w1 w') \<or>
         (w' = w \<and> r \<noteq> None \<and> r \<noteq> Some DepthExceeded)"
proof (cases "truthy fn_name")
  case False
  with assms have "body w = (r, w')" by (simp add: own_scope_def)
  then show ?thesis using unchanged_refl by blast
next
  case True
  then obtain fmt where fmt: "fn_name = Some fmt" by (cases fn_name) simp_all
  show ?thesis
  proof (cases "get_extras w ue")
    case None
    with assms True show ?thesis by (auto simp: own_scope_def)
  next
    case (Some ex)
    show ?thesis
    proof (cases "str_format fmt (name tp)")
      case (Inl e)
      with assms True Some fmt str_format_error [OF Inl] show ?thesis
        by (auto simp: own_scope_def)
    next
      case (Inr fn)
      let ?w0 = "update_builder (fn_gen ex) (begin_procedure fn [''v1''] MISSING (locals ex)) w"
      obtain r1 w1 where b: "body ?w0 = (r1, w1)" by (cases "body ?w0")
      with assms True Some fmt Inr
      have "r = r1" "w' = update_builder (fn_gen ex) end_procedure w1"
        by (simp_all add: own_scope_def with_function_def)
      with b unchanged_update_builder [of w] unchanged_update_builder [of w1]
      show ?thesis by blast
    qed
  qed
qed
lemma request_fields_grows:
  assumes fin: "finite K"
    and step: "\<And>rq w g. \<lbrakk>request_key rq \<in> K; get_extras w ue = Some exu;
                 get_guard w (recursion_guard exu) = Some g; card (K - dom g) \<le> m\<rbrakk>
               \<Longrightarrow> grows (recursion_guard exu) K w (snd (cf rq ue w)) \<and>
                   fst (cf rq ue w) \<noteq> Inl DepthExceeded \<and>
                   (\<forall>s. fst (cf rq ue w) = Inr s \<longrightarrow>
                      settled G (recursion_guard exu) w (snd (cf rq ue w)) \<and>
                      (\<exists>fn. guard_entry (snd (cf rq ue w)) (recursion_guard exu)
                              (request_key rq) = Some fn))"
  shows "\<lbrakk>\<forall>rq\<in>set ds. request_key rq \<in> K; get_extras w ue = Some exu;
          get_guard w (recursion_guard exu) = Some g; card (K - dom g) \<le> m\<rbrakk>
         \<Longrightarrow> grows (recursion_guard exu) K w (snd (request_fields cf ds ue w)) \<and>
             fst (request_fields cf ds ue w) \<noteq> Some DepthExceeded \<and>
             (fst (request_fields cf ds ue w) = None \<longrightarrow>
                settled G (recursion_guard exu) w (snd (request_fields cf ds ue w)) \<and>
                (\<forall>rq\<in>set ds. \<exists>fn. guard_entry (snd (request_fields cf ds ue w))
                                      (recursion_guard exu) (request_key rq) = Some fn))"
proof (induction ds arbitrary: w g)
  case Nil
  then show ?case by (simp add: grows_refl settled_refl)
next
  case (Cons d ds)
  let ?rg = "recursion_guard exu"
  obtain r w1 where c: "cf d ue w = (r, w1)" by (cases "cf d ue w")
  from Cons.prems have dK: "request_key d \<in> K" by simp
  from step [OF dK Cons.prems(2) Cons.prems(3) Cons.prems(4)] c
  have g1: "grows ?rg K w w1" and r1: "r \<noteq> Inl DepthExceeded"
    and ok1: "\<forall>s. r = Inr s \<longrightarrow> settled G ?rg w w1 \<and>
                (\<exists>fn. guard_entry w1 ?rg (request_key d) = Some fn)"
    by simp_all
  show ?case
  proof (cases r)
    case (Inl e)
    with c g1 r1 show ?thesis by simp
  next
    case (Inr expr)
    show ?thesis
    proof (cases "emit_at ue (name (snd d) @ '' = '' @ expr) w1")
      case e: (Inl e)
      with c Inr g1 emit_at_error [OF e] show ?thesis by simp
    next
      case w2: (Inr w2)
      note u = unchanged_emit_at [OF w2]
      have g2: "grows ?rg K w w2"
        by (rule grows_unchanged [OF g1 u])
      from grows_guard [OF g2 Cons.prems(3)] obtain g' where
        g': "get_guard w2 ?rg = Some g'" and sub: "dom g \<subseteq> dom g'" by blast
      have e2: "get_extras w2 ue = Some exu"
        by (rule grows_extras [OF g2 Cons.prems(2)])
      have cd: "card (K - dom g') \<le> m"
        using card_diff_dom_mono [OF fin sub] Cons.prems(4) by simp
      from Cons.prems(1) have rest: "\<forall>rq\<in>set ds. request_key rq \<in> K" by simp
      let ?res = "request_fields cf ds ue w2"
      from Cons.IH [OF rest e2 g' cd]
      have g3: "grows ?rg K w2 (snd ?res)"
        and nd: "fst ?res \<noteq> Some DepthExceeded"
        and ok3: "fst ?res = None \<longrightarrow> settled G ?rg w2 (snd ?res) \<and>
                    (\<forall>rq\<in>set ds. \<exists>fn. guard_entry (snd ?res) ?rg (request_key rq) = Some fn)"
        by simp_all
      have eq: "request_fields cf (d # ds) ue w = ?res"
        using c Inr w2 by simp
      have gr: "grows ?rg K w (snd ?res)"
        by (rule grows_trans [OF g2 g3])
      have ok: "settled G ?rg w (snd ?res) \<and>
                (\<forall>rq\<in>set (d # ds). \<exists>fn. guard_entry (snd ?res) ?rg (request_key rq) = Some fn)"
        if none: "fst ?res = None"
      proof -
        from ok1 Inr have s1: "settled G ?rg w w1"
          and en: "\<exists>fn. guard_entry w1 ?rg (request_key d) = Some fn" by simp_all
        from ok3 none have s3: "settled G ?rg w2 (snd ?res)"
          and rest_ok: "\<forall>rq\<in>set ds. \<exists>fn. guard_entry (snd ?res) ?rg (request_key rq) = Some fn"
          by simp_all
        have s: "settled G ?rg w (snd ?res)"
          by (rule settled_trans [OF settled_unchanged [OF s1 u] s3 g3])
        from en obtain fn where "guard_entry w1 ?rg (request_key d) = Some fn" by blast
        then have "guard_entry w2 ?rg (request_key d) = Some fn"
          by (simp add: unchanged_entry [OF u])
        then have "guard_entry (snd ?res) ?rg (request_key d) = Some fn"
          by (rule grows_entry [OF g3])
        with s rest_ok show ?thesis by simp
      qed
      from gr nd ok show ?thesis
        unfolding eq by blast
    qed
  qed
qed

lemma own_scope_grows:
  assumes body: "\<And>w0. unchanged w w0 \<Longrightarrow>
                   grows rg K w0 (snd (body w0)) \<and> fst (body w0) \<noteq> Some DepthExceeded \<and>
                   (fst (body w0) = None \<longrightarrow> settled G rg w0 (snd (body w0)) \<and> P (snd (body w0)))"
    and inv: "\<And>w1 w2. unchanged w1 w2 \<Longrightarrow> P w1 \<Longrightarrow> P w2"
    and g: "get_guard w rg = Some g"
  shows "grows rg K w (snd (own_scope fn_name tp ue body w)) \<and>
         fst (own_scope fn_name tp ue body w) \<noteq> Some DepthExceeded \<and>
         (fst (own_scope fn_name tp ue body w) = None \<longrightarrow>
            settled G rg w (snd (own_scope fn_name tp ue body w)) \<and>
            P (snd (own_scope fn_name tp ue body w)))"
proof -
  obtain r w' where o: "own_scope fn_name tp ue body w = (r, w')"
    by (cases "own_scope fn_name tp ue body w")
  from own_scope_cases [OF o] show ?thesis
  proof
    assume "\<exists>w0 w1. unchanged w w0 \<and> body w0 = (r, w1) \<and> unchanged w1 w'"
    then obtain w0 w1 where u0: "unchanged w w0" and b: "body w0 = (r, w1)"
      and u1: "unchanged w1 w'" by blast
    from body [OF u0] b have gr: "grows rg K w0 w1" and nd: "r \<noteq> Some DepthExceeded"
      and ok: "r = None \<longrightarrow> settled G rg w0 w1 \<and> P w1" by simp_all
    have 1: "grows rg K w w'"
      by (rule unchanged_grows [OF u0 grows_unchanged [OF gr u1]])
    have 2: "r = None \<longrightarrow> settled G rg w w' \<and> P w'"
      using ok unchanged_settled [OF u0 settled_unchanged [OF _ u1]] inv [OF u1] by blast
    from 1 nd 2 show ?thesis by (simp add: o)
  next
    assume "w' = w \<and> r \<noteq> None \<and> r \<noteq> Some DepthExceeded"
    then show ?thesis by (auto simp: o grows_refl [OF g])
  qed
qed

lemma settled_reserve:
  assumes g: "get_guard w rg = Some g"
    and g1: "get_guard w2 rg = Some (g(k \<mapsto> fn))"
    and s: "settled G rg w2 w3"
    and fields: "\<forall>rq\<in>set (G k). \<exists>fn'. guard_entry w3 rg (request_key rq) = Some fn'"
  shows "settled G rg w w3"
proof -
  from s g1 obtain g3 where g3: "get_guard w3 rg = Some g3"
    and s3: "\<forall>k'\<in>dom g3 - dom (g(k \<mapsto> fn)). \<forall>rq\<in>set (G k'). request_key rq \<in> dom g3"
    by (auto simp: settled_def)
  from fields g3 have f: "\<forall>rq\<in>set (G k). request_key rq \<in> dom g3"
    by (auto simp: guard_entry_def)
  have "\<forall>k'\<in>dom g3 - dom g. \<forall>rq\<in>set (G k'). request_key rq \<in> dom g3"
  proof (intro ballI)
    fix k' rq assume k': "k' \<in> dom g3 - dom g" and rq: "rq \<in> set (G k')"
    show "request_key rq \<in> dom g3"
    proof (cases "k' = k")
      case True
      with f rq show ?thesis by blast
    next
      case False
      with k' have "k' \<in> dom g3 - dom (g(k \<mapsto> fn))" by auto
      with s3 rq show ?thesis by blast
    qed
  qed
  with g g3 show ?thesis by (auto simp: settled_def)
qed

lemma wrapper_logic_graph_grows:
  assumes fin: "finite K"
    and closed: "\<forall>k\<in>K. \<forall>rq\<in>set (G k). request_key rq \<in> K"
  shows "\<lbrakk>request_key rq \<in> K; get_extras w ex' = Some ex;
          get_guard w (recursion_guard ex) = Some g; card (K - dom g) \<le> n\<rbrakk>
         \<Longrightarrow> grows (recursion_guard ex) K w
               (snd (wrapper_logic (graph_compiler n G (fst rq)) (c_fn_name (fst rq))
                       (c_is_generic (fst rq)) (snd rq) ex' cls' w)) \<and>
             fst (wrapper_logic (graph_compiler n G (fst rq)) (c_fn_name (fst rq))
                    (c_is_generic (fst rq)) (snd rq) ex' cls' w) \<noteq> Inl DepthExceeded \<and>
             (\<forall>s. fst (wrapper_logic (graph_compiler n G (fst rq)) (c_fn_name (fst rq))
                         (c_is_generic (fst rq)) (snd rq) ex' cls' w) = Inr s \<longrightarrow>
                settled G (recursion_guard ex) w
                  (snd (wrapper_logic (graph_compiler n G (fst rq)) (c_fn_name (fst rq))
                          (c_is_generic (fst rq)) (snd rq) ex' cls' w)) \<and>
                (\<exists>fn. guard_entry
                        (snd (wrapper_logic (graph_compiler n G (fst rq)) (c_fn_name (fst rq))
                                (c_is_generic (fst rq)) (snd rq) ex' cls' w))
                        (recursion_guard ex) (request_key rq) = Some fn \<and>
                      s = call_expr fn (snd rq)))"
proof (induction n arbitrary: rq ex' ex w g)
  case 0
  let ?k = "cache_key_of (c_is_generic (fst rq)) (snd rq)"
  from 0 fin have "K - dom g = {}" by simp
  with "0.prems"(1) obtain fn where hit: "g ?k = Some fn"
    by (auto simp: request_key_def)
  show ?case
    using hit "0.prems"(3)
    by (simp add: wrapper_logic_hit [OF "0.prems"(2) "0.prems"(3) hit]
        grows_refl [OF "0.prems"(3)] settled_refl [OF "0.prems"(3)] guard_entry_def
        request_key_def)
next
  case (Suc m)
  let ?c = "fst rq" and ?tp = "snd rq"
  let ?fmt = "c_fn_name ?c" and ?ig = "c_is_generic ?c"
  let ?k = "cache_key_of ?ig ?tp"
  let ?rg = "recursion_guard ex"
  let ?f = "graph_compiler (Suc m) G ?c"
  note ex = Suc.prems(2) and g = Suc.prems(3)
  have kK: "?k \<in> K" using Suc.prems(1) by (simp add: request_key_def)
  show ?case
  proof (cases "g ?k")
    case (Some fn)
    show ?thesis
      using Some g
      by (simp add: wrapper_logic_hit [OF ex g Some] grows_refl [OF g] settled_refl [OF g]
          guard_entry_def request_key_def)
  next
    case miss: None
    show ?thesis
    proof (cases "make_fn_name ?f ?fmt ?ig (cls_name ex) ?tp")
      case (Inl e)
      with make_fn_name_error [OF Inl] show ?thesis
        by (simp add: wrapper_logic_name_error [OF ex g miss Inl] grows_refl [OF g])
    next
      case fn: (Inr fn)
      let ?n = "length (heap w)"
      let ?w2 = "body_world ?fmt fn ?k ex g w"
      let ?w2' = "?w2\<lparr>entered := entered w @ [?k]\<rparr>"
      let ?exu = "ex\<lparr>locals := Suc ?n, fn_gen := Suc (Suc ?n)\<rparr>"
      let ?cf = "\<lambda>rq ex. wrapper_logic (graph_compiler m G (fst rq)) (c_fn_name (fst rq))
                            (c_is_generic (fst rq)) (snd rq) ex cls'"
      let ?fields = "request_fields ?cf (G ?k) ?n"
      let ?body = "own_scope ?fmt ?tp ?n ?fields ?w2'"
      let ?P = "\<lambda>w'. \<forall>rq\<in>set (G ?k). \<exists>fn'. guard_entry w' ?rg (request_key rq) = Some fn'"
      have run: "run ?f (body_call cls' ?tp ?n) ?w2 = ?body"
        by (simp only: run_graph_compiler_Suc graph_body_def
            body_world_lookups(6) [OF ex g])
      have reserve: "grows ?rg K w ?w2'"
        by (rule grows_reserve [OF ex g miss kK])
      have exu: "get_extras ?w2' ?n = Some ?exu"
        by (simp add: body_world_lookups(3) [OF ex g])
      have g2: "get_guard ?w2' ?rg = Some (g(?k \<mapsto> fn))"
        by (simp add: body_world_lookups(1) [OF ex g])
      have "?k \<in> K - dom g" using miss kK by auto
      then have "K - dom (g(?k \<mapsto> fn)) = (K - dom g) - {?k}" "?k \<in> K - dom g"
        by auto
      then have "card (K - dom (g(?k \<mapsto> fn))) = card (K - dom g) - 1"
        using fin by simp
      with Suc.prems(4) have cd: "card (K - dom (g(?k \<mapsto> fn))) \<le> m" by simp
      have fields: "\<forall>rq\<in>set (G ?k). request_key rq \<in> K"
        using closed kK by blast
      have step: "grows (recursion_guard ?exu) K w0 (snd (?cf d ?n w0)) \<and>
                  fst (?cf d ?n w0) \<noteq> Inl DepthExceeded \<and>
                  (\<forall>s. fst (?cf d ?n w0) = Inr s \<longrightarrow>
                     settled G (recursion_guard ?exu) w0 (snd (?cf d ?n w0)) \<and>
                     (\<exists>fn. guard_entry (snd (?cf d ?n w0)) (recursion_guard ?exu)
                             (request_key d) = Some fn))"
        if "request_key d \<in> K" "get_extras w0 ?n = Some ?exu"
          "get_guard w0 (recursion_guard ?exu) = Some g0" "card (K - dom g0) \<le> m"
        for d w0 g0
        using Suc.IH [OF that] by blast
      have inner: "grows ?rg K w0 (snd (?fields w0)) \<and>
                   fst (?fields w0) \<noteq> Some DepthExceeded \<and>
                   (fst (?fields w0) = None \<longrightarrow>
                      settled G ?rg w0 (snd (?fields w0)) \<and> ?P (snd (?fields w0)))"
        if u: "unchanged ?w2' w0" for w0
      proof -
        have e0: "get_extras w0 ?n = Some ?exu"
          using exu by (simp add: unchanged_get [OF u])
        have g0: "get_guard w0 (recursion_guard ?exu) = Some (g(?k \<mapsto> fn))"
          using g2 by (simp add: unchanged_get [OF u])
        from request_fields_grows [of K ?n ?exu m ?cf G, OF fin step fields e0 g0 cd]
        show ?thesis by simp
      qed
      have P_inv: "?P w2" if "unchanged w1 w2" "?P w1" for w1 w2
        using that by (simp add: unchanged_entry [OF that(1)])
      have body_all: "grows ?rg K ?w2' (snd ?body) \<and> fst ?body \<noteq> Some DepthExceeded \<and>
                      (fst ?body = None \<longrightarrow> settled G ?rg ?w2' (snd ?body) \<and> ?P (snd ?body))"
        apply (rule own_scope_grows [where P = ?P and g = "g(?k \<mapsto> fn)"])
          apply (rule inner, assumption)
         apply (rule P_inv, assumption, assumption)
        apply (rule g2)
        done
      then have body_grows: "grows ?rg K ?w2' (snd ?body)"
        and body_nd: "fst ?body \<noteq> Some DepthExceeded"
        and body_ok: "fst ?body = None \<longrightarrow> settled G ?rg ?w2' (snd ?body) \<and> ?P (snd ?body)"
        by blast+
      obtain r w3 where b: "?body = (r, w3)" by (cases ?body)
      from body_grows b have g23: "grows ?rg K ?w2' w3" by simp
      have g3: "grows ?rg K w w3"
        by (rule grows_trans [OF reserve g23])
      let ?ws = "close_scope ?fmt (Suc (Suc ?n)) w3"
      note us = unchanged_close_scope [of w3 ?fmt "Suc (Suc ?n)"]
      have gs: "grows ?rg K w ?ws"
        by (rule grows_unchanged [OF g3 us])
      show ?thesis
      proof (cases r)
        case (Some e)
        with b body_nd run gs show ?thesis
          by (simp add: wrapper_logic_miss [OF ex g miss fn])
      next
        case None
        show ?thesis
        proof (cases "merge_into (fn_gen ex) (Suc (Suc ?n)) ?ws")
          case (Inl e)
          with b None run gs merge_into_error [OF Inl] show ?thesis
            by (simp add: wrapper_logic_miss [OF ex g miss fn])
        next
          case (Inr w4)
          note u4 = unchanged_merge_into [OF Inr]
          have res: "wrapper_logic ?f ?fmt ?ig ?tp ex' cls' w = (Inr (call_expr fn ?tp), w4)"
            using b None run Inr by (simp add: wrapper_logic_miss [OF ex g miss fn])
          have gr4: "grows ?rg K w w4"
            by (rule grows_unchanged [OF gs u4])
          from body_ok b None have s23: "settled G ?rg ?w2' w3" and P3: "?P w3" by simp_all
          have s3: "settled G ?rg w w3"
            by (rule settled_reserve [OF g g2 s23 P3])
          have s4: "settled G ?rg w w4"
            by (rule settled_unchanged [OF settled_unchanged [OF s3 us] u4])
          have "guard_entry ?w2' ?rg ?k = Some fn"
            using g2 by (simp add: guard_entry_def)
          then have "guard_entry w3 ?rg ?k = Some fn"
            by (rule grows_entry [OF g23])
          then have e4: "guard_entry w4 ?rg ?k = Some fn"
            by (simp add: unchanged_entry [OF u4] unchanged_entry [OF us])
          from gr4 s4 e4 show ?thesis
            by (simp add: res request_key_def)
        qed
      qed
    qed
  qed
qed
subsection \<open>Keys that a request can reach\<close>

lemma reachable_closed:
  "\<forall>k\<in>reachable G k0. \<forall>rq\<in>set (G k). request_key rq \<in> reachable G k0"
  by (blast intro: reachable.field)

lemma reachable_covered:
  assumes root: "k0 \<in> D"
    and closed: "\<forall>k\<in>D. \<forall>rq\<in>set (G k). request_key rq \<in> D"
  shows "reachable G k0 \<subseteq> D"
proof
  fix k assume "k \<in> reachable G k0"
  then show "k \<in> D"
    by induction (use root closed in blast)+
qed

section \<open>Termination on cyclic type graphs\<close>

text \<open>
  A record \<open>R\<close> with a field of its own type and a field holding a list of \<open>S\<close>, where
  \<open>S\<close> has a field of type \<open>R\<close>. Records are compiled by \<^verbatim>\<open>load_to_dataclass\<close>,
  decorated for plain types; the list by \<^verbatim>\<open>load_to_list\<close>, decorated with
  \<^verbatim>\<open>is_generic=True\<close>, whose body requests the element type.
\<close>

definition dataclass_loader :: compiler_spec where
  "dataclass_loader =
     \<lparr>c_name = ''load_to_dataclass'', c_argcount = 2, c_fn_name = None, c_is_generic = False\<rparr>"

definition list_loader :: compiler_spec where
  "list_loader =
     \<lparr>c_name = ''load_to_list'', c_argcount = 2, c_fn_name = None, c_is_generic = True\<rparr>"

definition tp_R :: typeinfo where
  "tp_R = \<lparr>origin = Class ''R'', args = [], name = ''R'', field_i = 1, v = ''v1''\<rparr>"

definition tp_S :: typeinfo where
  "tp_S = \<lparr>origin = Class ''S'', args = [], name = ''S'', field_i = 1, v = ''v1''\<rparr>"

definition tp_list_S :: typeinfo where
  "tp_list_S =
     \<lparr>origin = Class ''list'', args = [Class ''S''], name = ''items'', field_i = 2, v = ''v1''\<rparr>"

definition cyclic_graph :: graph where
  "cyclic_graph k =
     (if k = Origin (Class ''R'') then [(dataclass_loader, tp_R), (list_loader, tp_list_S)]
      else if k = TypeArgs [Class ''S''] then [(dataclass_loader, tp_S)]
      else if k = Origin (Class ''S'') then [(dataclass_loader, tp_R)]
      else [])"

definition cyclic_keys :: "cache_key set" where
  "cyclic_keys = {Origin (Class ''R''), TypeArgs [Class ''S''], Origin (Class ''S'')}"

lemma cyclic_root: "request_key (dataclass_loader, tp_R) = Origin (Class ''R'')"
  by (simp add: request_key_def cache_key_of_def dataclass_loader_def tp_R_def)

lemma cyclic_reachable: "reachable cyclic_graph (Origin (Class ''R'')) = cyclic_keys"
proof
  show "reachable cyclic_graph (Origin (Class ''R'')) \<subseteq> cyclic_keys"
    by (rule reachable_covered)
      (simp_all add: cyclic_keys_def cyclic_graph_def request_key_def cache_key_of_def
        dataclass_loader_def list_loader_def tp_R_def tp_S_def tp_list_S_def)
  have r: "Origin (Class ''R'') \<in> reachable cyclic_graph (Origin (Class ''R''))"
    by (rule reachable.root)
  have "request_key (list_loader, tp_list_S) \<in> reachable cyclic_graph (Origin (Class ''R''))"
    by (rule reachable.field [OF r]) (simp add: cyclic_graph_def)
  then have l: "TypeArgs [Class ''S''] \<in> reachable cyclic_graph (Origin (Class ''R''))"
    by (simp add: request_key_def cache_key_of_def list_loader_def tp_list_S_def)
  have "request_key (dataclass_loader, tp_S) \<in> reachable cyclic_graph (Origin (Class ''R''))"
    by (rule reachable.field [OF l]) (simp add: cyclic_graph_def)
  then have s: "Origin (Class ''S'') \<in> reachable cyclic_graph (Origin (Class ''R''))"
    by (simp add: request_key_def cache_key_of_def dataclass_loader_def tp_S_def)
  from r l s show "cyclic_keys \<subseteq> reachable cyclic_graph (Origin (Class ''R''))"
    by (simp add: cyclic_keys_def)
qed

lemma card_cyclic_keys: "card cyclic_keys = 3"
  by (simp add: cyclic_keys_def)
text \<open>
  The cyclic example evaluated with budget 3, the number of its keys: the request returns the
  call of the procedure of \<open>R\<close>; the bodies of \<open>R\<close>, of the list and of \<open>S\<close> were entered
  once each; the guard holds one name for each; the parent builder holds one procedure for
  each, and the body of the procedure of \<open>R\<close> calls that same procedure by name for its own
  field of type \<open>R\<close>. With budget 2 the nesting does not fit.
\<close>

lemma cyclic_graph_compiles:
  "map_option (\<lambda>(r, w). (r, entered w, get_builder w 1,
                 map (guard_entry w 0) [Origin (Class ''R''), TypeArgs [Class ''S''],
                                        Origin (Class ''S'')]))
     (compile 3 cyclic_graph (dataclass_loader, tp_R) 3 None fresh_world)
   = Some (Inr ''_load_Rec_dataclass_R(v1)'',
           [Origin (Class ''R''), TypeArgs [Class ''S''], Origin (Class ''S'')],
           Some \<lparr>definitions =
                   [\<lparr>proc_name = ''_load_Rec_dataclass_S'', proc_params = [''v1''],
                     proc_sentinel = MISSING, proc_locals = 11,
                     proc_body = [''R = _load_Rec_dataclass_R(v1)'']\<rparr>,
                    \<lparr>proc_name = ''_load_Rec_list_2'', proc_params = [''v1''],
                     proc_sentinel = MISSING, proc_locals = 8,
                     proc_body = [''S = _load_Rec_dataclass_S(v1)'']\<rparr>,
                    \<lparr>proc_name = ''_load_Rec_dataclass_R'', proc_params = [''v1''],
                     proc_sentinel = MISSING, proc_locals = 5,
                     proc_body = [''R = _load_Rec_dataclass_R(v1)'',
                                  ''items = _load_Rec_list_2(v1)'']\<rparr>],
                 opened = []\<rparr>,
           [Some ''_load_Rec_dataclass_R'', Some ''_load_Rec_list_2'',
            Some ''_load_Rec_dataclass_S''])"
  by code_simp

lemma depth_two_is_not_enough:
  "compile 2 cyclic_graph (dataclass_loader, tp_R) 3 None fresh_world = None"
  by code_simp

text \<open>
  Claim C3. Let the set of cache keys that the requested descriptor reaches through the
  graph be finite (the graph may have cycles, and each field names its own decorated
  compiler, in either naming mode). Then a depth budget of the number of reachable keys that
  the guard does not hold yet (at most the number of distinct types) suffices: the top-level
  request comes back, with a value or an exception of the compilation, never for lack of
  depth. The keys logged by the bodies entered during the request are pairwise distinct, so
  no body is entered twice for one key; they are reachable keys that the guard did not hold,
  and the guard afterwards holds its old entries and exactly one new entry for each of them.
  When the request returns a value, that value is the call of the name that the guard holds
  for the requested key; every field of every key entered has its key in the guard; and if
  the same was true of the keys the guard held before (as for an empty guard), every
  reachable key has its name in the guard.
\<close>

theorem compilation_terminates:
  assumes fin: "finite (reachable G (request_key rq))"
    and ex: "get_extras w extras' = Some ex"
    and g: "get_guard w (recursion_guard ex) = Some g"
    and depth: "card (reachable G (request_key rq) - dom g) \<le> depth"
  shows "\<exists>r w' g' new.
           compile depth G rq extras' cls' w = Some (r, w') \<and>
           get_guard w' (recursion_guard ex) = Some g' \<and> g \<subseteq>\<^sub>m g' \<and>
           entered w' = entered w @ new \<and> distinct new \<and>
           set new \<subseteq> reachable G (request_key rq) \<and>
           dom g' = dom g \<union> set new \<and> set new \<inter> dom g = {} \<and>
           (\<forall>s. r = Inr s \<longrightarrow>
              (\<exists>fn. g' (request_key rq) = Some fn \<and> s = fn @ ''('' @ v (snd rq) @ '')'') \<and>
              (\<forall>k\<in>set new. \<forall>f\<in>set (G k). request_key f \<in> dom g') \<and>
              ((\<forall>k\<in>dom g. \<forall>f\<in>set (G k). request_key f \<in> dom g)
                 \<longrightarrow> reachable G (request_key rq) \<subseteq> dom g'))"
proof -
  let ?K = "reachable G (request_key rq)"
  let ?rg = "recursion_guard ex"
  let ?res = "wrapper_logic (graph_compiler depth G (fst rq)) (c_fn_name (fst rq))
                (c_is_generic (fst rq)) (snd rq) extras' cls' w"
  have root: "request_key rq \<in> ?K" by (rule reachable.root)
  from wrapper_logic_graph_grows [OF fin reachable_closed root ex g depth, of cls']
  have gr: "grows ?rg ?K w (snd ?res)" and nd: "fst ?res \<noteq> Inl DepthExceeded"
    and ok: "\<forall>s. fst ?res = Inr s \<longrightarrow> settled G ?rg w (snd ?res) \<and>
               (\<exists>fn. guard_entry (snd ?res) ?rg (request_key rq) = Some fn \<and>
                     s = call_expr fn (snd rq))"
    by blast+
  from nd have c: "compile depth G rq extras' cls' w = Some (fst ?res, snd ?res)"
    by (simp add: compile_def Let_def)
  from gr g obtain g' new where g': "get_guard (snd ?res) ?rg = Some g'" and sub: "g \<subseteq>\<^sub>m g'"
    and en: "entered (snd ?res) = entered w @ new" and di: "distinct new"
    and nK: "set new \<subseteq> ?K" and dom: "dom g' = dom g \<union> set new"
    and dis: "set new \<inter> dom g = {}"
    by (auto simp: grows_def)
  have success: "(\<exists>fn. g' (request_key rq) = Some fn \<and> s = fn @ ''('' @ v (snd rq) @ '')'') \<and>
                 (\<forall>k\<in>set new. \<forall>f\<in>set (G k). request_key f \<in> dom g') \<and>
                 ((\<forall>k\<in>dom g. \<forall>f\<in>set (G k). request_key f \<in> dom g)
                    \<longrightarrow> ?K \<subseteq> dom g')"
    if s: "fst ?res = Inr s" for s
  proof -
    from ok s have st: "settled G ?rg w (snd ?res)"
      and fn: "\<exists>fn. guard_entry (snd ?res) ?rg (request_key rq) = Some fn \<and>
                    s = call_expr fn (snd rq)"
      by blast+
    from fn g' have 1: "\<exists>fn. g' (request_key rq) = Some fn \<and> s = fn @ ''('' @ v (snd rq) @ '')''"
      by (simp add: guard_entry_def call_expr_def)
    from st g g' have cl: "\<forall>k\<in>dom g' - dom g. \<forall>f\<in>set (G k). request_key f \<in> dom g'"
      by (simp add: settled_def)
    have 2: "\<forall>k\<in>set new. \<forall>f\<in>set (G k). request_key f \<in> dom g'"
      using cl dom dis by blast
    have 3: "?K \<subseteq> dom g'" if old: "\<forall>k\<in>dom g. \<forall>f\<in>set (G k). request_key f \<in> dom g"
    proof (rule reachable_covered)
      from 1 show "request_key rq \<in> dom g'" by blast
      show "\<forall>k\<in>dom g'. \<forall>f\<in>set (G k). request_key f \<in> dom g'"
        using old cl dom by blast
    qed
    from 1 2 3 show ?thesis by blast
  qed
  from c g' sub en di nK dom dis success show ?thesis by blast
qed

theorem compilation_terminates_witness:
  "\<exists>w' g'.
     compile 3 cyclic_graph (dataclass_loader, tp_R) 3 None fresh_world
       = Some (Inr ''_load_Rec_dataclass_R(v1)'', w') \<and>
     get_guard w' 0 = Some g' \<and>
     entered w' = [Origin (Class ''R''), TypeArgs [Class ''S''], Origin (Class ''S'')] \<and>
     g' (Origin (Class ''R'')) = Some ''_load_Rec_dataclass_R'' \<and>
     dom g' = {Origin (Class ''R''), TypeArgs [Class ''S''], Origin (Class ''S'')} \<and>
     reachable cyclic_graph (Origin (Class ''R'')) = dom g'"
proof -
  let ?ex = "\<lparr>recursion_guard = 0, cls_name = ''Rec'', fn_gen = 1, locals = 2\<rparr>"
  let ?rq = "(dataclass_loader, tp_R)"
  let ?c = "compile 3 cyclic_graph ?rq 3 None fresh_world"
  have fin: "finite (reachable cyclic_graph (request_key ?rq))"
    by (simp add: cyclic_root cyclic_reachable cyclic_keys_def)
  have e: "get_extras fresh_world 3 = Some ?ex"
    by (rule fresh_world_simps)
  have g: "get_guard fresh_world (recursion_guard ?ex) = Some Map.empty"
    by (simp add: fresh_world_simps)
  have depth: "card (reachable cyclic_graph (request_key ?rq)
                      - dom (Map.empty :: cache_key \<rightharpoonup> string)) \<le> 3"
    by (simp add: cyclic_root cyclic_reachable card_cyclic_keys)
  from compilation_terminates [OF fin e g depth, of None]
  obtain r w' g' new where c: "?c = Some (r, w')"
    and g': "get_guard w' 0 = Some g'"
    and en: "entered w' = entered fresh_world @ new"
    and dom: "dom g' = dom (Map.empty :: cache_key \<rightharpoonup> string) \<union> set new"
    and ok: "\<forall>s. r = Inr s \<longrightarrow>
               (\<exists>fn. g' (request_key ?rq) = Some fn \<and> s = fn @ ''('' @ v (snd ?rq) @ '')'') \<and>
               (\<forall>k\<in>set new. \<forall>f\<in>set (cyclic_graph k). request_key f \<in> dom g') \<and>
               ((\<forall>k\<in>dom (Map.empty :: cache_key \<rightharpoonup> string).
                    \<forall>f\<in>set (cyclic_graph k). request_key f \<in> dom Map.empty)
                  \<longrightarrow> reachable cyclic_graph (request_key ?rq) \<subseteq> dom g')"
    by auto
  have r: "map_option fst ?c = Some (Inr ''_load_Rec_dataclass_R(v1)'')"
    by code_simp
  have l: "map_option (\<lambda>x. entered (snd x)) ?c
             = Some [Origin (Class ''R''), TypeArgs [Class ''S''], Origin (Class ''S'')]"
    by code_simp
  from r c have r': "r = Inr ''_load_Rec_dataclass_R(v1)''" by simp
  from l c have l': "entered w' = [Origin (Class ''R''), TypeArgs [Class ''S''],
                                   Origin (Class ''S'')]" by simp
  from en l' have new: "new = [Origin (Class ''R''), TypeArgs [Class ''S''],
                               Origin (Class ''S'')]"
    by (simp add: fresh_world_def)
  from ok r' obtain fn where fn: "g' (Origin (Class ''R'')) = Some fn"
    and s: "''_load_Rec_dataclass_R(v1)'' = fn @ ''('' @ v tp_R @ '')''"
    and cover: "reachable cyclic_graph (Origin (Class ''R'')) \<subseteq> dom g'"
    by (auto simp: cyclic_root)
  from s have "fn = ''_load_Rec_dataclass_R''"
    by (simp add: tp_R_def)
  with fn have name: "g' (Origin (Class ''R'')) = Some ''_load_Rec_dataclass_R''" by simp
  from dom new have d: "dom g' = {Origin (Class ''R''), TypeArgs [Class ''S''],
                                   Origin (Class ''S'')}"
    by auto
  have eq: "reachable cyclic_graph (Origin (Class ''R'')) = dom g'"
    using d by (simp add: cyclic_reachable cyclic_keys_def)
  from c r' g' l' name d eq show ?thesis by blast
qed

end
